theory Spec2Isabelle
  imports Main "HOL-Library.AList"
begin

section \<open>Configuration values\<close>

text \<open>
  A configuration read with \<^verbatim>\<open>read_config_as_dict\<close> is built from Python's primitive
  types only. A dict is an association list in insertion order (its keys are distinct), a
  list is a list. Floats are carried as opaque scalars of type \<open>'f\<close>; keys are of an
  arbitrary type \<open>'k\<close>, since the functions below never look into a key.
  A value of this type is a tree: no list or dict object occurs at two positions of it.
  Strings are sequences of code points below 256.
\<close>

datatype ('k, 'f) pyval =
    PNone
  | PBool bool
  | PInt int
  | PFloat 'f
  | PStr string
  | PList "('k, 'f) pyval list"
  | PDict "('k \<times> ('k, 'f) pyval) list"

datatype pytype = NoneType | BoolType | IntType | FloatType | StrType | ListType | DictType

fun type_of :: "('k, 'f) pyval \<Rightarrow> pytype" where
  "type_of PNone = NoneType"
| "type_of (PBool _) = BoolType"
| "type_of (PInt _) = IntType"
| "type_of (PFloat _) = FloatType"
| "type_of (PStr _) = StrType"
| "type_of (PList _) = ListType"
| "type_of (PDict _) = DictType"

text \<open>
  The exceptions of the code, and \<^verbatim>\<open>SystemExit\<close> with its status. A
  \<^verbatim>\<open>ValueError\<close> carries its message; the
  messages of \<^verbatim>\<open>replace_default_values\<close> are kept apart by constructor, each
  with the text that the f-string interpolates.
\<close>

datatype message =
    NoDefaultValue string
      \<comment> \<open>Found {variable} in the configuration file, but there is no default value for
          this variable.\<close>
  | FactorNotInteger string
      \<comment> \<open>F must be an integer in variable: {variable}\<close>
  | UnknownOperator string
      \<comment> \<open>Unknown operator for variable: {variable}\<close>
  | CannotParse string
      \<comment> \<open>Found {variable} in the configuration file, but cannot parse it.\<close>
  | ConfigMustBeDictOrList pytype
      \<comment> \<open>Config to update must be dict or list, found {type(config)}\<close>
  | InvalidLiteralForInt string
      \<comment> \<open>raised by \<^verbatim>\<open>int\<close>: invalid literal for int() with base 10\<close>

datatype pyerr =
    ValueError message
  | TypeError
  | KeyError
  | IndexError
  | OverflowError
  | RecursionError
  | AttributeError string
  | NameError string
  | SystemExit nat

section \<open>Strings: \<^verbatim>\<open>strip\<close>, \<^verbatim>\<open>split\<close>, \<^verbatim>\<open>isdigit\<close>, \<^verbatim>\<open>int\<close>\<close>

text \<open>
  \<^verbatim>\<open>str.isspace\<close> on the code points below 256: tab to carriage return, the
  four separators 28 to 31, the space, NEL (133) and the no-break space (160).
\<close>

definition isspace :: "char \<Rightarrow> bool" where
  "isspace c = (of_char c \<in> {9, 10, 11, 12, 13, 28, 29, 30, 31, 32, 133, 160 :: nat})"

definition strip :: "string \<Rightarrow> string" where
  "strip s = rev (dropWhile isspace (rev (dropWhile isspace s)))"

text \<open>\<^verbatim>\<open>s.split(sep)\<close> with a separator of one character: every occurrence cuts, so the
  result is never empty and may hold empty strings.\<close>

fun split :: "char \<Rightarrow> string \<Rightarrow> string list" where
  "split sep [] = [[]]"
| "split sep (c # cs) =
     (if c = sep then [] # split sep cs
      else (case split sep cs of
              [] \<Rightarrow> [[c]]
            | w # ws \<Rightarrow> (c # w) # ws))"

definition is_decimal :: "char \<Rightarrow> bool" where
  "is_decimal c = (48 \<le> (of_char c :: nat) \<and> (of_char c :: nat) \<le> 57)"

text \<open>
  \<^verbatim>\<open>str.isdigit\<close> is true of the decimal digits and, below 256, of the
  superscripts two, three and one (178, 179, 185), which \<^verbatim>\<open>int\<close> refuses.
\<close>

definition is_digit_char :: "char \<Rightarrow> bool" where
  "is_digit_char c = (is_decimal c \<or> of_char c \<in> {178, 179, 185 :: nat})"

definition isdigit :: "string \<Rightarrow> bool" where
  "isdigit s = (s \<noteq> [] \<and> list_all is_digit_char s)"

definition digit_value :: "char \<Rightarrow> int" where
  "digit_value c = int (of_char c) - 48"

definition decimal_value :: "string \<Rightarrow> int" where
  "decimal_value s = foldl (\<lambda>acc c. 10 * acc + digit_value c) 0 s"

text \<open>
  \<^verbatim>\<open>int(factor)\<close>, as it is called here: on a string that passed
  \<^verbatim>\<open>isdigit\<close>. (The interpreter's limit on the length of a converted string is
  not part of the model.)
\<close>

definition py_int :: "string \<Rightarrow> pyerr + int" where
  "py_int s =
     (if s \<noteq> [] \<and> list_all is_decimal s then Inr (decimal_value s)
      else Inl (ValueError (InvalidLiteralForInt s)))"

section \<open>Arithmetic of a placeholder's value with an integer\<close>

text \<open>
  \<^verbatim>\<open>value + factor\<close> and \<^verbatim>\<open>value * factor\<close> for an integer factor that is
  not negative. A bool counts as 0 or 1; a string or a list is repeated by \<^verbatim>\<open>*\<close> and
  refuses \<^verbatim>\<open>+\<close>; a dict refuses both. What a float does is left to the two functions
  of \<open>float_ops\<close>: the float of the result, or \<open>None\<close> where the integer is too large
  to convert to a float (\<^verbatim>\<open>OverflowError\<close>).
\<close>

record 'f float_ops =
  float_add_int :: "'f \<Rightarrow> int \<Rightarrow> 'f option"
  float_mul_int :: "'f \<Rightarrow> int \<Rightarrow> 'f option"

fun py_add :: "'f float_ops \<Rightarrow> ('k, 'f) pyval \<Rightarrow> int \<Rightarrow> pyerr + ('k, 'f) pyval" where
  "py_add fl (PInt a) n = Inr (PInt (a + n))"
| "py_add fl (PBool b) n = Inr (PInt (of_bool b + n))"
| "py_add fl (PFloat x) n =
     (case float_add_int fl x n of None \<Rightarrow> Inl OverflowError | Some y \<Rightarrow> Inr (PFloat y))"
| "py_add fl _ n = Inl TypeError"

fun py_mul :: "'f float_ops \<Rightarrow> ('k, 'f) pyval \<Rightarrow> int \<Rightarrow> pyerr + ('k, 'f) pyval" where
  "py_mul fl (PInt a) n = Inr (PInt (a * n))"
| "py_mul fl (PBool b) n = Inr (PInt (of_bool b * n))"
| "py_mul fl (PFloat x) n =
     (case float_mul_int fl x n of None \<Rightarrow> Inl OverflowError | Some y \<Rightarrow> Inr (PFloat y))"
| "py_mul fl (PStr s) n = Inr (PStr (concat (replicate (nat n) s)))"
| "py_mul fl (PList xs) n = Inr (PList (concat (replicate (nat n) xs)))"
| "py_mul fl _ n = Inl TypeError"

section \<open>\<^verbatim>\<open>replace_default_values\<close>\<close>

text \<open>
  \<^verbatim>\<open>updated_values\<close>: the three base placeholders, then the keyword arguments (a
  later key replaces an earlier one, as in a dict display).
\<close>

definition updated_values ::
  "('k, 'f) pyval \<Rightarrow> ('k, 'f) pyval \<Rightarrow> ('k, 'f) pyval \<Rightarrow> (string \<times> ('k, 'f) pyval) list
     \<Rightarrow> (string \<times> ('k, 'f) pyval) list" where
  "updated_values num_bodyparts num_individuals backbone_output_channels kwargs =
     AList.updates (map fst kwargs) (map snd kwargs)
       [(''num_bodyparts'', num_bodyparts),
        (''num_individuals'', num_individuals),
        (''backbone_output_channels'', backbone_output_channels)]"

definition var_parts :: "string \<Rightarrow> string list" where
  "var_parts variable = split (CHR '' '') (strip variable)"

definition get_updated_value ::
  "'f float_ops \<Rightarrow> (string \<times> ('k, 'f) pyval) list \<Rightarrow> string \<Rightarrow> pyerr + ('k, 'f) pyval" where
  "get_updated_value fl uv variable =
     (case var_parts variable of
        [] \<Rightarrow> Inl IndexError
      | var_name # rest \<Rightarrow>
          (case map_of uv var_name of
             None \<Rightarrow> Inl KeyError
           | Some PNone \<Rightarrow> Inl (ValueError (NoDefaultValue variable))
           | Some v \<Rightarrow>
               (case rest of
                  [] \<Rightarrow> Inr v
                | [operator, factor] \<Rightarrow>
                    if \<not> isdigit factor then Inl (ValueError (FactorNotInteger variable))
                    else (case py_int factor of
                            Inl e \<Rightarrow> Inl e
                          | Inr n \<Rightarrow>
                              if operator = ''+'' then py_add fl v n
                              else if operator = ''x'' then py_mul fl v n
                              else Inl (ValueError (UnknownOperator variable)))
                | _ \<Rightarrow> Inl (ValueError (CannotParse variable)))))"

text \<open>The test of the loop's second branch: the first part of the string is a key of
  \<^verbatim>\<open>updated_values\<close>.\<close>

definition is_placeholder :: "(string \<times> 'v) list \<Rightarrow> string \<Rightarrow> bool" where
  "is_placeholder uv s =
     (case var_parts s of [] \<Rightarrow> False | var_name # _ \<Rightarrow> map_of uv var_name \<noteq> None)"

text \<open>
  A \<^verbatim>\<open>for\<close> loop that assigns to each entry in turn: the body runs on the entries in
  order and the first exception ends the loop.
\<close>

primrec for_each :: "('a \<Rightarrow> 'e + 'b) \<Rightarrow> 'a list \<Rightarrow> 'e + 'b list" where
  "for_each body [] = Inr []"
| "for_each body (x # xs) =
     (case body x of
        Inl e \<Rightarrow> Inl e
      | Inr x' \<Rightarrow> (case for_each body xs of Inl e \<Rightarrow> Inl e | Inr xs' \<Rightarrow> Inr (x' # xs')))"

lemma for_each_cong [fundef_cong]:
  "xs = ys \<Longrightarrow> (\<And>x. x \<in> set ys \<Longrightarrow> f x = g x) \<Longrightarrow> for_each f xs = for_each g ys"
  by (induction ys arbitrary: xs) (auto split: sum.splits)

text \<open>
  The function copies its argument (a value of the model is its own copy), checks that
  it is a dict or a list, and assigns to each key, or index, in order. \<open>rdv_value\<close> is
  the body of the loop at one entry \<^verbatim>\<open>config[k]\<close>: a list or a dict is replaced by the
  result of the recursive call, a string whose first part is a key of
  \<^verbatim>\<open>updated_values\<close> by its updated value, and anything else stays.
\<close>

fun replace_default_values ::
      "'f float_ops \<Rightarrow> (string \<times> ('k, 'f) pyval) list \<Rightarrow> ('k, 'f) pyval \<Rightarrow> pyerr + ('k, 'f) pyval"
  and rdv_value ::
      "'f float_ops \<Rightarrow> (string \<times> ('k, 'f) pyval) list \<Rightarrow> ('k, 'f) pyval \<Rightarrow> pyerr + ('k, 'f) pyval"
where
  "replace_default_values fl uv (PDict kvs) =
     map_sum id PDict (for_each (\<lambda>(k, v). map_sum id (Pair k) (rdv_value fl uv v)) kvs)"
| "replace_default_values fl uv (PList xs) = map_sum id PList (for_each (rdv_value fl uv) xs)"
| "replace_default_values fl uv PNone = Inl (ValueError (ConfigMustBeDictOrList NoneType))"
| "replace_default_values fl uv (PBool b) = Inl (ValueError (ConfigMustBeDictOrList BoolType))"
| "replace_default_values fl uv (PInt i) = Inl (ValueError (ConfigMustBeDictOrList IntType))"
| "replace_default_values fl uv (PFloat x) = Inl (ValueError (ConfigMustBeDictOrList FloatType))"
| "replace_default_values fl uv (PStr s) = Inl (ValueError (ConfigMustBeDictOrList StrType))"
| "rdv_value fl uv (PDict kvs) = replace_default_values fl uv (PDict kvs)"
| "rdv_value fl uv (PList xs) = replace_default_values fl uv (PList xs)"
| "rdv_value fl uv (PStr s) =
     (if is_placeholder uv s then get_updated_value fl uv s else Inr (PStr s))"
| "rdv_value fl uv PNone = Inr PNone"
| "rdv_value fl uv (PBool b) = Inr (PBool b)"
| "rdv_value fl uv (PInt i) = Inr (PInt i)"
| "rdv_value fl uv (PFloat x) = Inr (PFloat x)"

text \<open>A digit string, as the specification uses the word: one decimal digit or more.\<close>

definition digit_string :: "string \<Rightarrow> bool" where
  "digit_string s = (s \<noteq> [] \<and> list_all is_decimal s)"

text \<open>Float operations for the examples: a float is \<open>()\<close> and no operation fails.\<close>

definition example_float_ops :: "unit float_ops" where
  "example_float_ops = \<lparr>float_add_int = (\<lambda>x n. Some x), float_mul_int = (\<lambda>x n. Some x)\<rparr>"

text \<open>
  The notions that the properties are stated with. The shape of a value: the keys of every dict and
  the length of every list, at every depth.
\<close>

datatype 'k shape = Leaf | ListShape "'k shape list" | DictShape "('k \<times> 'k shape) list"

primrec shape_of :: "('k, 'f) pyval \<Rightarrow> 'k shape" where
  "shape_of PNone = Leaf"
| "shape_of (PBool b) = Leaf"
| "shape_of (PInt i) = Leaf"
| "shape_of (PFloat x) = Leaf"
| "shape_of (PStr s) = Leaf"
| "shape_of (PList xs) = ListShape (map shape_of xs)"
| "shape_of (PDict kvs) = DictShape (map (map_prod id shape_of) kvs)"

text \<open>The string values of a config at any depth, in the order in which the loops reach
  them; those that the loop replaces; the value supplied for the first part of a string.\<close>

primrec strings_of :: "('k, 'f) pyval \<Rightarrow> string list" where
  "strings_of PNone = []"
| "strings_of (PBool b) = []"
| "strings_of (PInt i) = []"
| "strings_of (PFloat x) = []"
| "strings_of (PStr s) = [s]"
| "strings_of (PList xs) = concat (map strings_of xs)"
| "strings_of (PDict kvs) = concat (map snd (map (map_prod id strings_of) kvs))"

definition placeholder_strings :: "(string \<times> ('k, 'f) pyval) list \<Rightarrow> ('k, 'f) pyval \<Rightarrow> string list" where
  "placeholder_strings uv config = filter (is_placeholder uv) (strings_of config)"

definition placeholder_value :: "(string \<times> ('k, 'f) pyval) list \<Rightarrow> string \<Rightarrow> ('k, 'f) pyval option" where
  "placeholder_value uv s = (case var_parts s of [] \<Rightarrow> None | var_name # _ \<Rightarrow> map_of uv var_name)"

text \<open>A well-formed placeholder expression: a bare name, or a name, an operator \<open>+\<close> or
  \<open>x\<close> and a digit string.\<close>

definition well_formed :: "string \<Rightarrow> bool" where
  "well_formed s =
     (case var_parts s of
        [name] \<Rightarrow> True
      | [name, operator, F] \<Rightarrow> (operator = ''+'' \<or> operator = ''x'') \<and> digit_string F
      | _ \<Rightarrow> False)"

definition is_int :: "('k, 'f) pyval \<Rightarrow> bool" where
  "is_int v = (case v of PInt i \<Rightarrow> True | _ \<Rightarrow> False)"

text \<open>The first exception that a function raises along a list, and the exception of a
  result.\<close>

primrec first_error :: "('a \<Rightarrow> pyerr + 'b) \<Rightarrow> 'a list \<Rightarrow> pyerr option" where
  "first_error g [] = None"
| "first_error g (x # xs) = (case g x of Inl e \<Rightarrow> Some e | Inr y \<Rightarrow> first_error g xs)"

definition error_of :: "pyerr + 'a \<Rightarrow> pyerr option" where
  "error_of r = (case r of Inl e \<Rightarrow> Some e | Inr y \<Rightarrow> None)"

text \<open>
  A position of a config: the keys and indices that lead to it, as in
  \<^verbatim>\<open>config["model"]["heads"][1]\<close>, and the value found there.
\<close>

datatype 'k index = Key 'k | Index nat

fun item_at :: "('k, 'f) pyval \<Rightarrow> 'k index list \<Rightarrow> ('k, 'f) pyval option" where
  "item_at v [] = Some v"
| "item_at (PDict kvs) (Key k # p) =
     (case map_of kvs k of None \<Rightarrow> None | Some v \<Rightarrow> item_at v p)"
| "item_at (PList xs) (Index i # p) = (if i < length xs then item_at (xs ! i) p else None)"
| "item_at _ (_ # p) = None"

text \<open>
  The values that an operator accepts together with an integer: \<open>+\<close> an int, a bool or a
  float; \<open>x\<close> these, a string or a list; a float only where the result is in range. The
  operation of a placeholder string is defined when the string has no operator, or when
  its operator accepts the value supplied for its name.
\<close>

definition accepts :: "'f float_ops \<Rightarrow> string \<Rightarrow> ('k, 'f) pyval \<Rightarrow> int \<Rightarrow> bool" where
  "accepts fl operator v n =
     (case v of
        PInt i \<Rightarrow> True
      | PBool b \<Rightarrow> True
      | PFloat x \<Rightarrow>
          (if operator = ''+'' then float_add_int fl x n \<noteq> None else float_mul_int fl x n \<noteq> None)
      | PStr t \<Rightarrow> operator = ''x''
      | PList xs \<Rightarrow> operator = ''x''
      | _ \<Rightarrow> False)"

definition operation_defined ::
  "'f float_ops \<Rightarrow> (string \<times> ('k, 'f) pyval) list \<Rightarrow> string \<Rightarrow> bool" where
  "operation_defined fl uv s =
     (case var_parts s of
        [name, operator, F] \<Rightarrow>
          (case map_of uv name of
             None \<Rightarrow> False
           | Some v \<Rightarrow> accepts fl operator v (decimal_value F))
      | _ \<Rightarrow> True)"

text \<open>The placeholder strings of a config other than \<open>s\<close> all have an updated value; those
  that the loops reach before the first \<open>s\<close> all have one.\<close>

definition others_resolve ::
  "'f float_ops \<Rightarrow> (string \<times> ('k, 'f) pyval) list \<Rightarrow> ('k, 'f) pyval \<Rightarrow> string \<Rightarrow> bool" where
  "others_resolve fl uv config s =
     list_all (\<lambda>t. t = s \<or> error_of (get_updated_value fl uv t) = None)
       (placeholder_strings uv config)"

definition resolve_before ::
  "'f float_ops \<Rightarrow> (string \<times> ('k, 'f) pyval) list \<Rightarrow> ('k, 'f) pyval \<Rightarrow> string \<Rightarrow> bool" where
  "resolve_before fl uv config s =
     list_all (\<lambda>t. error_of (get_updated_value fl uv t) = None)
       (takeWhile (\<lambda>t. t \<noteq> s) (placeholder_strings uv config))"

section \<open>\<^verbatim>\<open>update_config\<close>\<close>

text \<open>
  The loop over \<^verbatim>\<open>updates.items()\<close>: a key that \<^verbatim>\<open>config\<close> has with a dict, and
  that comes with a dict, is assigned the recursive merge of the two; any other key is
  assigned the update. An assignment to a key that the dict has replaces its value in
  place, an assignment to a new key appends it. On values, which are their own copies,
  \<^verbatim>\<open>copy_original\<close> and \<^verbatim>\<open>deepcopy\<close> change nothing; the calls on a store, where
  they matter, are modelled further down.
\<close>

fun update_config ::
  "('k \<times> ('k, 'f) pyval) list \<Rightarrow> ('k \<times> ('k, 'f) pyval) list \<Rightarrow> ('k \<times> ('k, 'f) pyval) list" where
  "update_config config [] = config"
| "update_config config ((k, v) # updates) =
     update_config
       (case (map_of config k, v) of
          (Some (PDict c), PDict u) \<Rightarrow> AList.update k (PDict (update_config c u)) config
        | _ \<Rightarrow> AList.update k v config)
       updates"

text \<open>The value that the loop assigns to a key, from the value the config has for it, if
  any, and the update.\<close>

definition merge_entry :: "('k, 'f) pyval option \<Rightarrow> ('k, 'f) pyval \<Rightarrow> ('k, 'f) pyval" where
  "merge_entry old v =
     (case (old, v) of
        (Some (PDict c), PDict u) \<Rightarrow> PDict (update_config c u)
      | _ \<Rightarrow> v)"

section \<open>\<^verbatim>\<open>TopDownPredictor\<close>: tensors in a store\<close>

text \<open>
  Tensors are mutable, so they live in a store and the code handles references to them.
  The store keeps the tensors of three dimensions (bounding boxes, of shape
  \<open>(batch_size, max_num_animals, 4)\<close>) apart from those of four (keypoints, of shape
  \<open>(batch_size, max_num_animals, num_joints, 3)\<close>); a reference is an index into one of the
  two lists, and a tensor is the nested list of its elements. The element type \<open>'a\<close> and
  its arithmetic are a parameter: the four elementwise operations of the tensor library on
  the tensors' dtype, and the element that the scalar 256 converts to. The model covers
  tensors of the documented shapes; broadcasting between tensors of other shapes is not
  modelled.
\<close>

record 'a arith =
  t_add :: "'a \<Rightarrow> 'a \<Rightarrow> 'a"
  t_sub :: "'a \<Rightarrow> 'a \<Rightarrow> 'a"
  t_mul :: "'a \<Rightarrow> 'a \<Rightarrow> 'a"
  t_div :: "'a \<Rightarrow> 'a \<Rightarrow> 'a"
  c256 :: 'a

record 'a store =
  rank3 :: "'a list list list list"
  rank4 :: "'a list list list list list"

text \<open>\<^verbatim>\<open>t.clone()\<close> allocates a new tensor with the elements of \<open>t\<close>.\<close>

definition clone3 :: "'a store \<Rightarrow> nat \<Rightarrow> 'a store \<times> nat" where
  "clone3 s t = (s\<lparr>rank3 := rank3 s @ [rank3 s ! t]\<rparr>, length (rank3 s))"

definition clone4 :: "'a store \<Rightarrow> nat \<Rightarrow> 'a store \<times> nat" where
  "clone4 s t = (s\<lparr>rank4 := rank4 s @ [rank4 s ! t]\<rparr>, length (rank4 s))"

text \<open>\<^verbatim>\<open>t[:, :, i] -= t[:, :, j]\<close>, in place in the tensor that \<open>t\<close> refers to.\<close>

definition isub_channel :: "'a arith \<Rightarrow> nat \<Rightarrow> nat \<Rightarrow> nat \<Rightarrow> 'a store \<Rightarrow> 'a store" where
  "isub_channel ar t i j s =
     s\<lparr>rank3 := (rank3 s)
            [t := map (map (\<lambda>box. box[i := t_sub ar (box ! i) (box ! j)])) (rank3 s ! t)]\<rparr>"

definition convert_bbox_to_coco :: "'a arith \<Rightarrow> 'a store \<Rightarrow> nat \<Rightarrow> 'a store \<times> nat" where
  "convert_bbox_to_coco ar s bboxes =
     (let (s1, coco_bboxes) = clone3 s bboxes;
          s2 = isub_channel ar coco_bboxes 2 0 s1;
          s3 = isub_channel ar coco_bboxes 3 1 s2
      in (s3, coco_bboxes))"

text \<open>
  The expressions of \<^verbatim>\<open>forward\<close>: \<^verbatim>\<open>t[:, :, c]\<close> and \<^verbatim>\<open>t[:, :, :, c]\<close>,
  \<^verbatim>\<open>.unsqueeze(2).expand(-1, -1, num_joints)\<close>, the division by 256, the elementwise
  operations on tensors of one shape, and the assignment \<^verbatim>\<open>t[:, :, :, c] = rhs\<close>.
  \<^verbatim>\<open>shape[2]\<close> is read off the first instance of the first batch entry (an empty
  tensor has no element that depends on it).
\<close>

definition select3 :: "nat \<Rightarrow> 'a list list list \<Rightarrow> 'a list list" where
  "select3 c t = map (map (\<lambda>box. box ! c)) t"

definition select4 :: "nat \<Rightarrow> 'a list list list list \<Rightarrow> 'a list list list" where
  "select4 c t = map (map (map (\<lambda>kp. kp ! c))) t"

definition unsqueeze_expand :: "nat \<Rightarrow> 'a list list \<Rightarrow> 'a list list list" where
  "unsqueeze_expand num_joints m = map (map (replicate num_joints)) m"

definition div_scalar :: "'a arith \<Rightarrow> 'a list list \<Rightarrow> 'a list list" where
  "div_scalar ar m = map (map (\<lambda>w. t_div ar w (c256 ar))) m"

definition elementwise :: "('a \<Rightarrow> 'a \<Rightarrow> 'a) \<Rightarrow> 'a list list list \<Rightarrow> 'a list list list \<Rightarrow> 'a list list list" where
  "elementwise f a b = map2 (map2 (map2 f)) a b"

definition assign_channel ::
  "nat \<Rightarrow> 'a list list list \<Rightarrow> 'a list list list list \<Rightarrow> 'a list list list list" where
  "assign_channel c rhs t = map2 (map2 (map2 (\<lambda>kp v. kp[c := v]))) t rhs"

definition num_joints_of :: "'a list list list list \<Rightarrow> nat" where
  "num_joints_of t = (case t of (instance # _) # _ \<Rightarrow> length instance | _ \<Rightarrow> 0)"

definition forward ::
  "string \<Rightarrow> 'a arith \<Rightarrow> 'a store \<Rightarrow> nat \<Rightarrow> nat \<Rightarrow> 'a store \<times> (string \<times> nat) list" where
  "forward format_bbox ar s bboxes keypoints_cropped =
     (let (s1, bboxes) =
            (if format_bbox \<noteq> ''coco'' then convert_bbox_to_coco ar s bboxes else (s, bboxes));
          num_joints = num_joints_of (rank4 s1 ! keypoints_cropped);
          (s2, new_kpts) = clone4 s1 keypoints_cropped;
          x_corners = unsqueeze_expand num_joints (select3 0 (rank3 s2 ! bboxes));
          y_corners = unsqueeze_expand num_joints (select3 1 (rank3 s2 ! bboxes));
          scales_x = unsqueeze_expand num_joints (div_scalar ar (select3 2 (rank3 s2 ! bboxes)));
          scales_y = unsqueeze_expand num_joints (div_scalar ar (select3 3 (rank3 s2 ! bboxes)));
          s3 = s2\<lparr>rank4 := (rank4 s2)
                 [new_kpts := assign_channel 0
                    (elementwise (t_add ar)
                       (elementwise (t_mul ar) scales_x (select4 0 (rank4 s2 ! new_kpts)))
                       x_corners)
                    (rank4 s2 ! new_kpts)]\<rparr>;
          s4 = s3\<lparr>rank4 := (rank4 s3)
                 [new_kpts := assign_channel 1
                    (elementwise (t_add ar)
                       (elementwise (t_mul ar) scales_y (select4 1 (rank4 s3 ! new_kpts)))
                       y_corners)
                    (rank4 s3 ! new_kpts)]\<rparr>
      in (s4, [(''poses'', new_kpts)]))"

text \<open>The shape of a nested list.\<close>

definition dims2 :: "'a list list \<Rightarrow> nat \<Rightarrow> nat \<Rightarrow> bool" where
  "dims2 m B N = (length m = B \<and> (\<forall>row\<in>set m. length row = N))"

definition dims3 :: "'a list list list \<Rightarrow> nat \<Rightarrow> nat \<Rightarrow> nat \<Rightarrow> bool" where
  "dims3 t B N K = (length t = B \<and> (\<forall>row\<in>set t. dims2 row N K))"

definition dims4 :: "'a list list list list \<Rightarrow> nat \<Rightarrow> nat \<Rightarrow> nat \<Rightarrow> nat \<Rightarrow> bool" where
  "dims4 t B N J C = (length t = B \<and> (\<forall>row\<in>set t. dims3 row N J C))"

text \<open>
  What the properties speak of: a box \<open>(x1, y1, x2, y2)\<close> in coco format, the boxes that
  \<^verbatim>\<open>forward\<close> computes with, and one channel of the keypoints remapped by the boxes.
\<close>

definition to_coco :: "'a arith \<Rightarrow> 'a list \<Rightarrow> 'a list" where
  "to_coco ar box =
     [box ! 0, box ! 1, t_sub ar (box ! 2) (box ! 0), t_sub ar (box ! 3) (box ! 1)]"

definition coco_boxes :: "string \<Rightarrow> 'a arith \<Rightarrow> 'a list list list \<Rightarrow> 'a list list list" where
  "coco_boxes format_bbox ar boxes =
     (if format_bbox \<noteq> ''coco'' then map (map (to_coco ar)) boxes else boxes)"

definition remapped ::
  "'a arith \<Rightarrow> nat \<Rightarrow> nat \<Rightarrow> nat \<Rightarrow> nat \<Rightarrow> 'a list list list \<Rightarrow> 'a list list list list
     \<Rightarrow> 'a list list list list" where
  "remapped ar J c cs cc boxes t =
     assign_channel c
       (elementwise (t_add ar)
          (elementwise (t_mul ar) (unsqueeze_expand J (div_scalar ar (select3 cs boxes)))
             (select4 c t))
          (unsqueeze_expand J (select3 cc boxes)))
       t"

text \<open>An example: integer elements, one box and two keypoints.\<close>

definition int_arith :: "int arith" where
  "int_arith = \<lparr>t_add = (+), t_sub = (-), t_mul = (*), t_div = (div), c256 = 256\<rparr>"

definition example_store :: "int store" where
  "example_store =
     \<lparr>rank3 = [[[[256, 512, 768, 1536]]]], rank4 = [[[[[1, 2, 9], [3, 4, 8]]]]]\<rparr>"

section \<open>The command line of \<^verbatim>\<open>train.py\<close>\<close>

text \<open>
  The entry point declares its options to \<^verbatim>\<open>argparse\<close>, parses the command line and
  calls \<^verbatim>\<open>train_network\<close>. Of the library, the model keeps what the code relies on:
  an option has an option string, a type and a default; the attribute of an option is its
  option string without the leading dashes and with the other dashes as underscores; an
  option that the command line does not give has its default, an option that it gives has
  its argument, converted by the type; an option that is not declared, or an argument
  that its type refuses, ends the program with status 2. How \<^verbatim>\<open>argparse\<close> finds the
  options on the command line is not modelled: \<open>supplied\<close> lists the option strings it
  found, each with the string of its argument, in the order of the command line (the last
  one counts); the help option, which the library adds on its own, is left out. \<^verbatim>\<open>int\<close> is a parameter.
\<close>

datatype arg_value = NoneVal | IntVal int | StrVal string | FloatLiteral string

datatype arg_type = type_str | type_int

record argument =
  option_string :: string
  arg_type :: arg_type
  default_value :: arg_value

text \<open>The four calls of \<^verbatim>\<open>add_argument\<close>.\<close>

definition parser :: "argument list" where
  "parser =
     [\<lparr>option_string = ''--config-path'', arg_type = type_str, default_value = NoneVal\<rparr>,
      \<lparr>option_string = ''--shuffle'', arg_type = type_int, default_value = IntVal 1\<rparr>,
      \<lparr>option_string = ''--train-ind'', arg_type = type_int, default_value = IntVal 0\<rparr>,
      \<lparr>option_string = ''--modelprefix'', arg_type = type_str, default_value = StrVal ''''\<rparr>]"

definition dest :: "string \<Rightarrow> string" where
  "dest opt =
     map (\<lambda>c. if c = CHR ''-'' then CHR ''_'' else c) (dropWhile (\<lambda>c. c = CHR ''-'') opt)"

definition convert_arg :: "(string \<Rightarrow> int option) \<Rightarrow> arg_type \<Rightarrow> string \<Rightarrow> pyerr + arg_value" where
  "convert_arg int_of_string ty raw =
     (case ty of
        type_str \<Rightarrow> Inr (StrVal raw)
      | type_int \<Rightarrow> (case int_of_string raw of None \<Rightarrow> Inl (SystemExit 2) | Some i \<Rightarrow> Inr (IntVal i)))"

definition parse_args ::
  "(string \<Rightarrow> int option) \<Rightarrow> argument list \<Rightarrow> (string \<times> string) list
     \<Rightarrow> pyerr + (string \<times> arg_value) list" where
  "parse_args int_of_string arguments supplied =
     (if \<exists>opt \<in> fst ` set supplied. opt \<notin> option_string ` set arguments then Inl (SystemExit 2)
      else for_each
             (\<lambda>a. case map_of (rev supplied) (option_string a) of
                    None \<Rightarrow> Inr (dest (option_string a), default_value a)
                  | Some raw \<Rightarrow>
                      map_sum id (Pair (dest (option_string a)))
                        (convert_arg int_of_string (arg_type a) raw))
             arguments)"

definition getattr :: "(string \<times> arg_value) list \<Rightarrow> string \<Rightarrow> pyerr + arg_value" where
  "getattr args name =
     (case map_of args name of None \<Rightarrow> Inl (AttributeError name) | Some v \<Rightarrow> Inr v)"

text \<open>
  The parameters of \<^verbatim>\<open>train_network\<close> with their defaults (\<^verbatim>\<open>config\<close> has none), and
  the binding of the keyword arguments of a call to them.
\<close>

definition train_network_signature :: "(string \<times> arg_value option) list" where
  "train_network_signature =
     [(''config'', None),
      (''shuffle'', Some (IntVal 1)),
      (''trainingsetindex'', Some (IntVal 0)),
      (''modelprefix'', Some (StrVal '''')),
      (''device'', Some NoneVal),
      (''snapshot_path'', Some NoneVal),
      (''detector_path'', Some NoneVal),
      (''batch_size'', Some NoneVal),
      (''epochs'', Some NoneVal),
      (''save_epochs'', Some NoneVal),
      (''display_iters'', Some NoneVal),
      (''max_snapshots_to_keep'', Some NoneVal),
      (''pose_threshold'', Some (FloatLiteral ''0.1''))]"

definition bind_arguments ::
  "(string \<times> arg_value option) list \<Rightarrow> (string \<times> arg_value) list \<Rightarrow> pyerr + (string \<times> arg_value) list" where
  "bind_arguments signature keywords =
     for_each
       (\<lambda>(name, dflt). case map_of keywords name of
                          Some v \<Rightarrow> Inr (name, v)
                        | None \<Rightarrow> (case dflt of
                                     Some v \<Rightarrow> Inr (name, v)
                                   | None \<Rightarrow> Inl TypeError))
       signature"

text \<open>
  \<^verbatim>\<open>train_network\<close> begins with the call \<^verbatim>\<open>DLCLoader(config=config, shuffle=shuffle,
  trainset_index=trainingsetindex, modelprefix=modelprefix)\<close>. The loader and all that
  follows are external; the model of \<^verbatim>\<open>train_network\<close> returns the keyword arguments of
  this call.
\<close>

definition local_variable :: "(string \<times> arg_value) list \<Rightarrow> string \<Rightarrow> pyerr + arg_value" where
  "local_variable params name =
     (case map_of params name of None \<Rightarrow> Inl (NameError name) | Some v \<Rightarrow> Inr v)"

definition train_network :: "(string \<times> arg_value) list \<Rightarrow> pyerr + (string \<times> arg_value) list" where
  "train_network keywords =
     (case bind_arguments train_network_signature keywords of
        Inl e \<Rightarrow> Inl e
      | Inr params \<Rightarrow>
          (case local_variable params ''config'' of Inl e \<Rightarrow> Inl e | Inr config \<Rightarrow>
           case local_variable params ''shuffle'' of Inl e \<Rightarrow> Inl e | Inr shuffle \<Rightarrow>
           case local_variable params ''trainingsetindex'' of Inl e \<Rightarrow> Inl e | Inr trainingsetindex \<Rightarrow>
           case local_variable params ''modelprefix'' of Inl e \<Rightarrow> Inl e | Inr modelprefix \<Rightarrow>
             Inr [(''config'', config), (''shuffle'', shuffle),
                  (''trainset_index'', trainingsetindex), (''modelprefix'', modelprefix)]))"

text \<open>The block under \<^verbatim>\<open>if __name__ == "__main__"\<close>.\<close>

definition main :: "(string \<Rightarrow> int option) \<Rightarrow> (string \<times> string) list \<Rightarrow> pyerr + (string \<times> arg_value) list" where
  "main int_of_string supplied =
     (case parse_args int_of_string parser supplied of
        Inl e \<Rightarrow> Inl e
      | Inr args \<Rightarrow>
          (case getattr args ''config_path'' of Inl e \<Rightarrow> Inl e | Inr config_path \<Rightarrow>
           case getattr args ''shuffle'' of Inl e \<Rightarrow> Inl e | Inr shuffle \<Rightarrow>
           case getattr args ''train_ind'' of Inl e \<Rightarrow> Inl e | Inr train_ind \<Rightarrow>
           case getattr args ''modelprefix'' of Inl e \<Rightarrow> Inl e | Inr modelprefix \<Rightarrow>
             train_network
               [(''config'', config_path), (''shuffle'', shuffle),
                (''trainingsetindex'', train_ind), (''modelprefix'', modelprefix)]))"

section \<open>Configurations in a store\<close>

text \<open>
  \<^verbatim>\<open>copy.deepcopy\<close>, the assignments \<^verbatim>\<open>config[k] = ...\<close> and
  \<^verbatim>\<open>copy_original\<close> are about objects that can be shared and changed in place. Here
  the lists and dicts are objects of a store; a value is a scalar or a reference to an
  object (the index of the object in the store), and every function takes the store and
  returns the new one. Allocation appends an object to the store. The first argument of
  the recursive functions is the depth of calls that is left: at depth 0 the interpreter
  raises \<^verbatim>\<open>RecursionError\<close>.
\<close>

datatype ('k, 'f) hval =
    HNone
  | HBool bool
  | HInt int
  | HFloat 'f
  | HStr string
  | HRef nat

datatype ('k, 'f) object =
    OList "('k, 'f) hval list"
  | ODict "('k \<times> ('k, 'f) hval) list"

type_synonym ('k, 'f) heap = "('k, 'f) object list"

text \<open>
  \<^verbatim>\<open>type(config)\<close> for the message of the type check, which only a scalar reaches.
\<close>

fun htype_of :: "('k, 'f) hval \<Rightarrow> pytype" where
  "htype_of HNone = NoneType"
| "htype_of (HBool _) = BoolType"
| "htype_of (HInt _) = IntType"
| "htype_of (HFloat _) = FloatType"
| "htype_of (HStr _) = StrType"
| "htype_of (HRef _) = ListType"

text \<open>
  A \<^verbatim>\<open>for\<close> loop whose body changes the state; the first exception ends it.
\<close>

primrec for_state :: "('a \<Rightarrow> 's \<Rightarrow> 'e + 's) \<Rightarrow> 'a list \<Rightarrow> 's \<Rightarrow> 'e + 's" where
  "for_state body [] s = Inr s"
| "for_state body (x # xs) s =
     (case body x s of Inl e \<Rightarrow> Inl e | Inr s' \<Rightarrow> for_state body xs s')"

lemma for_state_cong [fundef_cong]:
  "xs = ys \<Longrightarrow> s = t \<Longrightarrow> (\<And>x s. x \<in> set ys \<Longrightarrow> f x s = g x s) \<Longrightarrow>
     for_state f xs s = for_state g ys t"
  by (induction ys arbitrary: xs s t) (auto split: sum.splits)

text \<open>
  The keys of a dict and the indices of a list; \<^verbatim>\<open>obj[i]\<close> and \<^verbatim>\<open>obj[i] = v\<close>
  for the object at an address; \<^verbatim>\<open>y.append(v)\<close>.
\<close>

definition keys_of :: "('k, 'f) object \<Rightarrow> 'k index list" where
  "keys_of obj =
     (case obj of
        ODict entries \<Rightarrow> map (\<lambda>kv. Key (fst kv)) entries
      | OList items \<Rightarrow> map Index [0..<length items])"

definition get_item :: "('k, 'f) heap \<Rightarrow> nat \<Rightarrow> 'k index \<Rightarrow> pyerr + ('k, 'f) hval" where
  "get_item h a i =
     (case (h ! a, i) of
        (ODict entries, Key k) \<Rightarrow>
          (case map_of entries k of None \<Rightarrow> Inl KeyError | Some v \<Rightarrow> Inr v)
      | (OList items, Index j) \<Rightarrow> if j < length items then Inr (items ! j) else Inl IndexError
      | _ \<Rightarrow> Inl TypeError)"

definition set_item :: "nat \<Rightarrow> 'k index \<Rightarrow> ('k, 'f) hval \<Rightarrow> ('k, 'f) heap \<Rightarrow> pyerr + ('k, 'f) heap" where
  "set_item a i v h =
     (case (h ! a, i) of
        (ODict entries, Key k) \<Rightarrow> Inr (h[a := ODict (AList.update k v entries)])
      | (OList items, Index j) \<Rightarrow>
          if j < length items then Inr (h[a := OList (items[j := v])]) else Inl IndexError
      | _ \<Rightarrow> Inl TypeError)"

definition list_append :: "nat \<Rightarrow> ('k, 'f) hval \<Rightarrow> ('k, 'f) heap \<Rightarrow> pyerr + ('k, 'f) heap" where
  "list_append a v h =
     (case h ! a of
        OList items \<Rightarrow> Inr (h[a := OList (items @ [v])])
      | ODict entries \<Rightarrow> Inl (AttributeError ''append''))"

text \<open>
  \<^verbatim>\<open>copy.deepcopy(x, memo)\<close>: a scalar is its own copy; an object that the memo knows
  has the copy recorded there; any other list or dict gets a new, empty object, recorded
  in the memo before its items are copied into it one by one.
\<close>

fun deepcopy ::
  "nat \<Rightarrow> ('k, 'f) heap \<Rightarrow> (nat \<rightharpoonup> nat) \<Rightarrow> ('k, 'f) hval
     \<Rightarrow> pyerr + (('k, 'f) heap \<times> (nat \<rightharpoonup> nat)) \<times> ('k, 'f) hval" where
  "deepcopy 0 h memo x = Inl RecursionError"
| "deepcopy (Suc n) h memo x =
     (case x of
        HRef a \<Rightarrow>
          (case memo a of
             Some y \<Rightarrow> Inr ((h, memo), HRef y)
           | None \<Rightarrow>
               (let y = length h in
                case h ! a of
                  OList items \<Rightarrow>
                    map_sum id (\<lambda>hm. (hm, HRef y))
                      (for_state
                         (\<lambda>item (h, memo).
                            case deepcopy n h memo item of
                              Inl e \<Rightarrow> Inl e
                            | Inr ((h, memo), item') \<Rightarrow>
                                map_sum id (\<lambda>h. (h, memo)) (list_append y item' h))
                         items (h @ [OList []], memo(a \<mapsto> y)))
                | ODict entries \<Rightarrow>
                    map_sum id (\<lambda>hm. (hm, HRef y))
                      (for_state
                         (\<lambda>(key, value) (h, memo).
                            case deepcopy n h memo value of
                              Inl e \<Rightarrow> Inl e
                            | Inr ((h, memo), value') \<Rightarrow>
                                map_sum id (\<lambda>h. (h, memo)) (set_item y (Key key) value' h))
                         entries (h @ [ODict []], memo(a \<mapsto> y)))))
      | _ \<Rightarrow> Inr ((h, memo), x))"

text \<open>
  \<^verbatim>\<open>update_config(config, updates, copy_original)\<close>. The loop runs over the items that
  \<^verbatim>\<open>updates\<close> has when it starts.
\<close>

definition is_dict :: "('k, 'f) heap \<Rightarrow> ('k, 'f) hval \<Rightarrow> bool" where
  "is_dict h v = (case v of HRef a \<Rightarrow> (case h ! a of ODict _ \<Rightarrow> True | _ \<Rightarrow> False) | _ \<Rightarrow> False)"

fun update_config_st ::
  "nat \<Rightarrow> ('k, 'f) heap \<Rightarrow> ('k, 'f) hval \<Rightarrow> ('k, 'f) hval \<Rightarrow> bool
     \<Rightarrow> pyerr + ('k, 'f) heap \<times> ('k, 'f) hval" where
  "update_config_st 0 h config updates copy_original = Inl RecursionError"
| "update_config_st (Suc n) h config updates copy_original =
     (case (if copy_original then deepcopy n h Map.empty config
            else Inr ((h, Map.empty), config)) of
        Inl e \<Rightarrow> Inl e
      | Inr ((h, memo), config) \<Rightarrow>
          (case (config, updates) of
             (HRef c, HRef u) \<Rightarrow>
               (case h ! u of
                  OList _ \<Rightarrow> Inl (AttributeError ''items'')
                | ODict items \<Rightarrow>
                    map_sum id (\<lambda>h. (h, config))
                      (for_state
                         (\<lambda>(k, v) h.
                            if (case get_item h c (Key k) of
                                  Inl e \<Rightarrow> False
                                | Inr old \<Rightarrow> is_dict h old \<and> is_dict h v)
                            then
                              (case get_item h c (Key k) of
                                 Inl e \<Rightarrow> Inl e
                               | Inr old \<Rightarrow>
                                   (case update_config_st n h old v False of
                                      Inl e \<Rightarrow> Inl e
                                    | Inr (h, merged) \<Rightarrow> set_item c (Key k) merged h))
                            else
                              (case deepcopy n h Map.empty v of
                                 Inl e \<Rightarrow> Inl e
                               | Inr ((h, memo), v') \<Rightarrow> set_item c (Key k) v' h))
                         items h))
           | _ \<Rightarrow> Inl (AttributeError ''items'')))"

text \<open>
  \<^verbatim>\<open>value + factor\<close> and \<^verbatim>\<open>value * factor\<close> on values of the store: a list times
  an integer is a new list of the same items.
\<close>

fun py_add_st ::
  "'f float_ops \<Rightarrow> ('k, 'f) heap \<Rightarrow> ('k, 'f) hval \<Rightarrow> int \<Rightarrow> pyerr + ('k, 'f) heap \<times> ('k, 'f) hval" where
  "py_add_st fl h (HInt a) n = Inr (h, HInt (a + n))"
| "py_add_st fl h (HBool b) n = Inr (h, HInt (of_bool b + n))"
| "py_add_st fl h (HFloat x) n =
     (case float_add_int fl x n of None \<Rightarrow> Inl OverflowError | Some y \<Rightarrow> Inr (h, HFloat y))"
| "py_add_st fl h _ n = Inl TypeError"

fun py_mul_st ::
  "'f float_ops \<Rightarrow> ('k, 'f) heap \<Rightarrow> ('k, 'f) hval \<Rightarrow> int \<Rightarrow> pyerr + ('k, 'f) heap \<times> ('k, 'f) hval" where
  "py_mul_st fl h (HInt a) n = Inr (h, HInt (a * n))"
| "py_mul_st fl h (HBool b) n = Inr (h, HInt (of_bool b * n))"
| "py_mul_st fl h (HFloat x) n =
     (case float_mul_int fl x n of None \<Rightarrow> Inl OverflowError | Some y \<Rightarrow> Inr (h, HFloat y))"
| "py_mul_st fl h (HStr s) n = Inr (h, HStr (concat (replicate (nat n) s)))"
| "py_mul_st fl h (HRef a) n =
     (case h ! a of
        OList items \<Rightarrow> Inr (h @ [OList (concat (replicate (nat n) items))], HRef (length h))
      | ODict entries \<Rightarrow> Inl TypeError)"
| "py_mul_st fl h HNone n = Inl TypeError"

definition get_updated_value_st ::
  "'f float_ops \<Rightarrow> (string \<times> ('k, 'f) hval) list \<Rightarrow> ('k, 'f) heap \<Rightarrow> string
     \<Rightarrow> pyerr + ('k, 'f) heap \<times> ('k, 'f) hval" where
  "get_updated_value_st fl uv h variable =
     (case var_parts variable of
        [] \<Rightarrow> Inl IndexError
      | var_name # rest \<Rightarrow>
          (case map_of uv var_name of
             None \<Rightarrow> Inl KeyError
           | Some HNone \<Rightarrow> Inl (ValueError (NoDefaultValue variable))
           | Some v \<Rightarrow>
               (case rest of
                  [] \<Rightarrow> Inr (h, v)
                | [operator, factor] \<Rightarrow>
                    if \<not> isdigit factor then Inl (ValueError (FactorNotInteger variable))
                    else (case py_int factor of
                            Inl e \<Rightarrow> Inl e
                          | Inr n \<Rightarrow>
                              if operator = ''+'' then py_add_st fl h v n
                              else if operator = ''x'' then py_mul_st fl h v n
                              else Inl (ValueError (UnknownOperator variable)))
                | _ \<Rightarrow> Inl (ValueError (CannotParse variable)))))"

text \<open>
  \<^verbatim>\<open>replace_default_values\<close>: the copy, the type check, and the loop over the keys
  (or indices) of the copy, which reads \<^verbatim>\<open>config[k]\<close> and assigns to it.
\<close>

fun replace_default_values_st ::
  "nat \<Rightarrow> 'f float_ops \<Rightarrow> (string \<times> ('k, 'f) hval) list \<Rightarrow> ('k, 'f) heap \<Rightarrow> ('k, 'f) hval
     \<Rightarrow> pyerr + ('k, 'f) heap \<times> ('k, 'f) hval" where
  "replace_default_values_st 0 fl uv h config = Inl RecursionError"
| "replace_default_values_st (Suc n) fl uv h config =
     (case deepcopy n h Map.empty config of
        Inl e \<Rightarrow> Inl e
      | Inr ((h, memo), config) \<Rightarrow>
          (case config of
             HRef c \<Rightarrow>
               map_sum id (\<lambda>h. (h, config))
                 (for_state
                    (\<lambda>k h.
                       case get_item h c k of
                         Inl e \<Rightarrow> Inl e
                       | Inr (HRef a) \<Rightarrow>
                           (case replace_default_values_st n fl uv h (HRef a) of
                              Inl e \<Rightarrow> Inl e
                            | Inr (h, replaced) \<Rightarrow> set_item c k replaced h)
                       | Inr (HStr s) \<Rightarrow>
                           if is_placeholder uv s
                           then (case get_updated_value_st fl uv h s of
                                   Inl e \<Rightarrow> Inl e
                                 | Inr (h, updated) \<Rightarrow> set_item c k updated h)
                           else Inr h
                       | Inr _ \<Rightarrow> Inr h)
                    (keys_of (h ! c)) h)
           | _ \<Rightarrow> Inl (ValueError (ConfigMustBeDictOrList (htype_of config)))))"

text \<open>
  What the properties speak of: the objects that an object refers to and reaches; a store
  without dangling references; the objects that the supplied placeholder values refer to;
  the value that a reference stands for, read off the store to a given depth.
\<close>

definition refs_of :: "('k, 'f) object \<Rightarrow> nat set" where
  "refs_of obj =
     (case obj of
        OList items \<Rightarrow> {a. HRef a \<in> set items}
      | ODict entries \<Rightarrow> {a. HRef a \<in> snd ` set entries})"

inductive reaches :: "('k, 'f) heap \<Rightarrow> nat \<Rightarrow> nat \<Rightarrow> bool" for h :: "('k, 'f) heap" where
  here: "reaches h a a"
| step: "reaches h a b \<Longrightarrow> c \<in> refs_of (h ! b) \<Longrightarrow> reaches h a c"

definition heap_wf :: "('k, 'f) heap \<Rightarrow> bool" where
  "heap_wf h = (\<forall>a<length h. \<forall>b\<in>refs_of (h ! a). b < length h)"

definition uv_refs :: "(string \<times> ('k, 'f) hval) list \<Rightarrow> nat set" where
  "uv_refs uv = {u. HRef u \<in> snd ` set uv}"

fun value_of :: "nat \<Rightarrow> ('k, 'f) heap \<Rightarrow> ('k, 'f) hval \<Rightarrow> ('k, 'f) pyval option" where
  "value_of 0 h v = None"
| "value_of (Suc n) h v =
     (case v of
        HNone \<Rightarrow> Some PNone
      | HBool b \<Rightarrow> Some (PBool b)
      | HInt i \<Rightarrow> Some (PInt i)
      | HFloat x \<Rightarrow> Some (PFloat x)
      | HStr s \<Rightarrow> Some (PStr s)
      | HRef a \<Rightarrow>
          (case h ! a of
             OList items \<Rightarrow> map_option PList (those (map (value_of n h) items))
           | ODict entries \<Rightarrow>
               map_option PDict
                 (those (map (\<lambda>(k, v). map_option (Pair k) (value_of n h v)) entries))))"

text \<open>
  The invariant of the proofs: the new objects (those from \<open>n0\<close> on) and the objects of
  \<open>R\<close> refer to one another only; the objects below \<open>n0\<close> stay as they are; the memo
  maps to new objects.
\<close>

definition region :: "nat \<Rightarrow> nat set \<Rightarrow> ('k, 'f) heap \<Rightarrow> nat set" where
  "region n0 R h = {b. n0 \<le> b \<and> b < length h} \<union> R"

definition closed :: "nat \<Rightarrow> nat set \<Rightarrow> ('k, 'f) heap \<Rightarrow> bool" where
  "closed n0 R h =
     (n0 \<le> length h \<and> (\<forall>u\<in>R. u < n0)
      \<and> (\<forall>a\<in>region n0 R h. refs_of (h ! a) \<subseteq> region n0 R h))"

definition fresh :: "nat \<Rightarrow> nat set \<Rightarrow> ('k, 'f) heap \<Rightarrow> ('k, 'f) hval \<Rightarrow> bool" where
  "fresh n0 R h v = (case v of HRef b \<Rightarrow> b \<in> region n0 R h | _ \<Rightarrow> True)"

definition frame :: "nat \<Rightarrow> ('k, 'f) heap \<Rightarrow> ('k, 'f) heap \<Rightarrow> bool" where
  "frame n0 h h' = (length h \<le> length h' \<and> take n0 h' = take n0 h)"

definition memo_ok :: "nat \<Rightarrow> ('k, 'f) heap \<Rightarrow> (nat \<rightharpoonup> nat) \<Rightarrow> bool" where
  "memo_ok n0 h memo = (\<forall>a y. memo a = Some y \<longrightarrow> n0 \<le> y \<and> y < length h)"

text \<open>
  Examples: a config whose two keys hold one and the same dict, with an update for one of
  them; a config with a list that is also supplied as the value of a placeholder.
\<close>

definition shared_heap :: "(string, unit) heap" where
  "shared_heap =
     [ODict [(''backbone'', HRef 1), (''head'', HRef 1)],
      ODict [(''lr'', HInt 1)],
      ODict [(''backbone'', HRef 3)],
      ODict [(''lr'', HInt 2)]]"

definition graph_heap :: "(string, unit) heap" where
  "graph_heap =
     [ODict [(''graph'', HRef 1), (''edges'', HStr ''paf_graph''), (''channels'', HRef 2)],
      OList [HInt 0, HInt 1],
      OList [HStr ''num_bodyparts x 2'', HStr ''paf_graph x 2'']]"

definition graph_values :: "(string \<times> (string, unit) hval) list" where
  "graph_values =
     [(''num_bodyparts'', HInt 17), (''num_individuals'', HNone),
      (''backbone_output_channels'', HNone), (''paf_graph'', HRef 1)]"

text \<open>A config and updates without shared objects.\<close>

definition tree_heap :: "(string, unit) heap" where
  "tree_heap =
     [ODict [(''train'', HRef 1), (''seed'', HInt 42), (''device'', HStr ''cpu'')],
      ODict [(''epochs'', HInt 10), (''lr'', HInt 1)],
      ODict [(''train'', HRef 3), (''device'', HRef 4), (''method'', HStr ''bu'')],
      ODict [(''epochs'', HInt 200)],
      ODict [(''id'', HInt 0)]]"

section \<open>Properties of \<^verbatim>\<open>replace_default_values\<close>\<close>

lemma split_not_Nil: "split sep s \<noteq> []"
  by (induction s) (auto split: list.splits)

lemma var_parts_not_Nil: "var_parts s \<noteq> []"
  by (simp add: var_parts_def split_not_Nil)

lemma digit_string_isdigit: "digit_string s \<Longrightarrow> isdigit s"
  by (auto simp: digit_string_def isdigit_def is_digit_char_def list_all_iff)

lemma py_int_digit_string: "digit_string s \<Longrightarrow> py_int s = Inr (decimal_value s)"
  by (simp add: digit_string_def py_int_def)

lemma py_int_not_digit_string: "\<not> digit_string s \<Longrightarrow> py_int s = Inl (ValueError (InvalidLiteralForInt s))"
  by (simp add: digit_string_def py_int_def)

lemma for_each_Inl:
  "for_each f xs = Inl e \<Longrightarrow> \<exists>x \<in> set xs. f x = Inl e"
  by (induction xs) (auto split: sum.splits)

lemma py_add_no_type_check: "py_add fl v n \<noteq> Inl (ValueError m)"
  by (cases v) (auto split: option.splits)

lemma py_mul_no_type_check: "py_mul fl v n \<noteq> Inl (ValueError m)"
  by (cases v) (auto split: option.splits)

lemma get_updated_value_no_type_check:
  "get_updated_value fl uv s \<noteq> Inl (ValueError (ConfigMustBeDictOrList t))"
  by (auto simp: get_updated_value_def py_int_def py_add_no_type_check py_mul_no_type_check
      split: list.splits option.splits pyval.splits sum.splits)

lemma rdv_no_type_check:
  "type_of config = DictType \<or> type_of config = ListType \<Longrightarrow>
     replace_default_values fl uv config \<noteq> Inl (ValueError (ConfigMustBeDictOrList t))"
  "rdv_value fl uv v \<noteq> Inl (ValueError (ConfigMustBeDictOrList t))"
proof (induction fl uv config and fl uv v rule: replace_default_values_rdv_value.induct)
  case (1 fl uv kvs)
  show ?case
  proof
    assume "replace_default_values fl uv (PDict kvs) = Inl (ValueError (ConfigMustBeDictOrList t))"
    then have "for_each (\<lambda>(k, v). map_sum id (Pair k) (rdv_value fl uv v)) kvs
                 = Inl (ValueError (ConfigMustBeDictOrList t))"
      by (cases "for_each (\<lambda>(k, v). map_sum id (Pair k) (rdv_value fl uv v)) kvs") auto
    then obtain k v where "(k, v) \<in> set kvs"
      and "map_sum id (Pair k) (rdv_value fl uv v) = Inl (ValueError (ConfigMustBeDictOrList t))"
      by (auto dest!: for_each_Inl)
    then show False using 1 by (cases "rdv_value fl uv v") auto
  qed
next
  case (2 fl uv xs)
  show ?case
  proof
    assume "replace_default_values fl uv (PList xs) = Inl (ValueError (ConfigMustBeDictOrList t))"
    then have "for_each (rdv_value fl uv) xs = Inl (ValueError (ConfigMustBeDictOrList t))"
      by (cases "for_each (rdv_value fl uv) xs") auto
    then show False using 2 by (auto dest!: for_each_Inl)
  qed
qed (auto simp: get_updated_value_no_type_check)

lemma is_placeholderI: "var_parts s = name # rest \<Longrightarrow> map_of uv name = Some v \<Longrightarrow> is_placeholder uv s"
  by (simp add: is_placeholder_def)

lemma var_parts_example [simp]:
  "var_parts ''num_bodyparts x 2'' = [''num_bodyparts'', ''x'', ''2'']"
  "var_parts ''num_bodyparts + 1'' = [''num_bodyparts'', ''+'', ''1'']"
  "var_parts ''num_bodyparts'' = [''num_bodyparts'']"
  "var_parts ''num_bodyparts - 1'' = [''num_bodyparts'', ''-'', ''1'']"
  "var_parts ''num_bodyparts x two'' = [''num_bodyparts'', ''x'', ''two'']"
  "var_parts ''num_bodyparts x'' = [''num_bodyparts'', ''x'']"
  by (simp_all add: var_parts_def strip_def isspace_def)

lemma error_of_simps [simp]: "error_of (Inl e) = Some e" "error_of (Inr y) = None"
  by (simp_all add: error_of_def)

lemma error_of_map_sum [simp]: "error_of (map_sum id f r) = error_of r"
  by (cases r) simp_all

lemma first_error_append:
  "first_error g (xs @ ys) = (case first_error g xs of Some e \<Rightarrow> Some e | None \<Rightarrow> first_error g ys)"
  by (induction xs) (auto split: sum.splits)

lemma error_of_for_each:
  assumes "\<And>x. x \<in> set xs \<Longrightarrow> error_of (f x) = first_error g (S x)"
  shows "error_of (for_each f xs) = first_error g (concat (map S xs))"
  using assms
proof (induction xs)
  case Nil
  show ?case by simp
next
  case (Cons a xs)
  have a: "first_error g (S a) = error_of (f a)"
    using Cons.prems by simp
  have rest: "first_error g (concat (map S xs)) = error_of (for_each f xs)"
    using Cons by simp
  show ?case
    by (cases "f a"; cases "for_each f xs") (simp_all add: first_error_append a rest)
qed

lemma first_error_filter:
  "first_error g (filter P xs) = first_error (\<lambda>x. if P x then g x else Inr undefined) xs"
  by (induction xs) (auto split: sum.splits)

text \<open>The error of a call is the error of the first placeholder string, in the order of
  the loop, whose updated value cannot be computed.\<close>

lemma error_of_rdv_value:
  "error_of (rdv_value fl uv v) = first_error (get_updated_value fl uv) (placeholder_strings uv v)"
  unfolding placeholder_strings_def
proof (induction v)
  case (PList xs)
  have "error_of (for_each (rdv_value fl uv) xs)
          = first_error (get_updated_value fl uv)
              (concat (map (\<lambda>x. filter (is_placeholder uv) (strings_of x)) xs))"
    using PList by (intro error_of_for_each) simp
  then show ?case by (simp add: filter_concat comp_def)
next
  case (PDict kvs)
  have "error_of (for_each (\<lambda>(k, v). map_sum id (Pair k) (rdv_value fl uv v)) kvs)
          = first_error (get_updated_value fl uv)
              (concat (map (\<lambda>kv. filter (is_placeholder uv) (strings_of (snd kv))) kvs))"
  proof (intro error_of_for_each)
    fix x assume "x \<in> set kvs"
    then have "snd x \<in> Basic_BNFs.snds x" "x \<in> set kvs" by (auto simp: snds.simps)
    then show "error_of (case x of (k, v) \<Rightarrow> map_sum id (Pair k) (rdv_value fl uv v))
                 = first_error (get_updated_value fl uv)
                     (filter (is_placeholder uv) (strings_of (snd x)))"
      using PDict by (cases x) auto
  qed
  then show ?case by (simp add: filter_concat comp_def)
qed (simp_all add: error_of_def split: sum.splits)

lemma error_of_replace_default_values:
  "type_of config = DictType \<or> type_of config = ListType \<Longrightarrow>
     error_of (replace_default_values fl uv config)
       = first_error (get_updated_value fl uv) (placeholder_strings uv config)"
  using error_of_rdv_value [of fl uv config] by (cases config) auto

lemma first_error_None_iff:
  "first_error g xs = None \<longleftrightarrow> (\<forall>x\<in>set xs. \<exists>y. g x = Inr y)"
  by (induction xs) (auto split: sum.splits)

lemma first_error_at:
  "(\<forall>t\<in>set pre. \<exists>y. g t = Inr y) \<Longrightarrow> g s = Inl e \<Longrightarrow> first_error g (pre @ s # post) = Some e"
  by (induction pre) auto

lemma error_of_Some_iff: "error_of r = Some e \<longleftrightarrow> r = Inl e"
  by (cases r) auto

lemma error_of_None_iff: "error_of r = None \<longleftrightarrow> (\<exists>y. r = Inr y)"
  by (cases r) auto

lemma get_updated_value_None:
  "placeholder_value uv s = Some PNone \<Longrightarrow>
     get_updated_value fl uv s = Inl (ValueError (NoDefaultValue s))"
  by (auto simp: placeholder_value_def get_updated_value_def split: list.splits)

lemma for_each_Inr_iff:
  "for_each f xs = Inr ys \<longleftrightarrow> list_all2 (\<lambda>x y. f x = Inr y) xs ys"
proof (induction xs arbitrary: ys)
  case Nil
  show ?case by auto
next
  case (Cons a xs)
  show ?case
  proof (cases "f a")
    case (Inl e)
    then show ?thesis by (cases ys) auto
  next
    case (Inr b)
    show ?thesis
    proof (cases "for_each f xs")
      case (Inl e)
      with Cons Inr show ?thesis by (cases ys) auto
    next
      case r: (Inr zs)
      with Cons [of zs] have "list_all2 (\<lambda>x y. f x = Inr y) xs zs" by simp
      with Cons Inr r show ?thesis by (cases ys) auto
    qed
  qed
qed

lemma list_all2_rightD:
  "list_all2 P xs ys \<Longrightarrow> y \<in> set ys \<Longrightarrow> \<exists>x\<in>set xs. P x y"
  by (induction rule: list_all2_induct) auto

lemma for_each_fixed:
  "(\<And>x. x \<in> set xs \<Longrightarrow> f x = Inr x) \<Longrightarrow> for_each f xs = Inr xs"
  by (induction xs) auto

lemma get_updated_value_ints:
  assumes "list_all (\<lambda>nv. is_int (snd nv)) uv" and "get_updated_value fl uv s = Inr r"
  shows "\<exists>j. r = PInt j"
proof (cases "var_parts s")
  case Nil
  with assms show ?thesis by (simp add: get_updated_value_def)
next
  case (Cons name rest)
  with assms(2) obtain v where v: "map_of uv name = Some v"
    by (auto simp: get_updated_value_def split: option.splits)
  then have "(name, v) \<in> set uv" by (rule map_of_SomeD)
  with assms(1) obtain i where i: "v = PInt i"
    by (cases v) (auto simp: list_all_iff is_int_def)
  from assms(2) Cons v i show ?thesis
    by (auto simp: get_updated_value_def split: list.splits if_splits sum.splits)
qed

lemma rdv_value_idempotent:
  assumes "list_all (\<lambda>nv. is_int (snd nv)) uv"
  shows "rdv_value fl uv v = Inr r \<Longrightarrow>
           placeholder_strings uv r = [] \<and> shape_of r = shape_of v \<and> rdv_value fl uv r = Inr r"
proof (induction v arbitrary: r)
  case (PStr s)
  show ?case
  proof (cases "is_placeholder uv s")
    case True
    with PStr have "get_updated_value fl uv s = Inr r" by simp
    with assms obtain j where "r = PInt j" using get_updated_value_ints by blast
    then show ?thesis by (simp add: placeholder_strings_def)
  next
    case False
    with PStr show ?thesis by (auto simp: placeholder_strings_def)
  qed
next
  case (PList xs)
  from PList.prems obtain ys where r: "r = PList ys"
    and ys: "list_all2 (\<lambda>x y. rdv_value fl uv x = Inr y) xs ys"
    by (cases "for_each (rdv_value fl uv) xs") (auto simp: for_each_Inr_iff)
  have each: "placeholder_strings uv y = [] \<and> shape_of y = shape_of x \<and> rdv_value fl uv y = Inr y"
    if "x \<in> set xs" "rdv_value fl uv x = Inr y" for x y
    using PList.IH that by blast
  have all: "list_all2 (\<lambda>x y. placeholder_strings uv y = [] \<and> shape_of y = shape_of x
                 \<and> rdv_value fl uv y = Inr y) xs ys"
    using ys by (rule list.rel_mono_strong) (use each in blast)
  have 1: "placeholder_strings uv (PList ys) = []"
    using all by (auto simp: placeholder_strings_def filter_concat list_all2_conv_all_nth
        in_set_conv_nth)
  have 2: "map shape_of ys = map shape_of xs"
    using all by (auto simp: list_all2_conv_all_nth intro!: nth_equalityI)
  have 3: "for_each (rdv_value fl uv) ys = Inr ys"
    using all by (intro for_each_fixed) (auto simp: list_all2_conv_all_nth in_set_conv_nth)
  from 1 2 3 r show ?case by simp
next
  case (PDict kvs)
  let ?f = "\<lambda>(k, v). map_sum id (Pair k) (rdv_value fl uv v)"
  from PDict.prems obtain kws where r: "r = PDict kws"
    and kws: "list_all2 (\<lambda>x y. ?f x = Inr y) kvs kws"
    by (cases "for_each ?f kvs") (auto simp: for_each_Inr_iff)
  have each: "fst y = fst x \<and> placeholder_strings uv (snd y) = []
                \<and> shape_of (snd y) = shape_of (snd x) \<and> rdv_value fl uv (snd y) = Inr (snd y)"
    if "x \<in> set kvs" "?f x = Inr y" for x y
  proof -
    obtain k v where x: "x = (k, v)" by (cases x)
    with that(2) obtain w where y: "y = (k, w)" and w: "rdv_value fl uv v = Inr w"
      by (cases "rdv_value fl uv v") auto
    have "v \<in> Basic_BNFs.snds x" by (simp add: x snds.simps)
    with PDict.IH that(1) w
    have "placeholder_strings uv w = [] \<and> shape_of w = shape_of v \<and> rdv_value fl uv w = Inr w"
      by blast
    with x y show ?thesis by simp
  qed
  have all: "list_all2 (\<lambda>x y. fst y = fst x \<and> placeholder_strings uv (snd y) = []
                \<and> shape_of (snd y) = shape_of (snd x) \<and> rdv_value fl uv (snd y) = Inr (snd y))
               kvs kws"
    using kws by (rule list.rel_mono_strong) (use each in blast)
  have ys: "\<forall>y\<in>set kws. placeholder_strings uv (snd y) = []
               \<and> rdv_value fl uv (snd y) = Inr (snd y)"
    using list_all2_rightD [OF all] by blast
  have 1: "placeholder_strings uv (PDict kws) = []"
    using ys by (auto simp: placeholder_strings_def filter_concat)
  have 2: "map (map_prod id shape_of) kws = map (map_prod id shape_of) kvs"
    using all by (auto simp: list_all2_conv_all_nth map_prod_def split_beta intro!: nth_equalityI)
  have 3: "for_each ?f kws = Inr kws"
    using ys by (intro for_each_fixed) (auto simp: split_beta)
  from 1 2 3 r show ?case by simp
qed (auto simp: placeholder_strings_def)

lemma var_parts_example2 [simp]:
  "var_parts ''num_individuals'' = [''num_individuals'']"
  "var_parts ''paf_graph + 1'' = [''paf_graph'', ''+'', ''1'']"
  "var_parts ''relu'' = [''relu'']"
  "var_parts ''paf_graph'' = [''paf_graph'']"
  "var_parts ''paf_graph x 2'' = [''paf_graph'', ''x'', ''2'']"
  by (simp_all add: var_parts_def strip_def isspace_def)

lemma digit_string_example [simp]:
  "digit_string ''1''" "digit_string ''2''" "decimal_value ''1'' = 1" "decimal_value ''2'' = 2"
  "isdigit ''1''" "isdigit ''2''" "\<not> digit_string ''two''"
  by (simp_all add: digit_string_def isdigit_def is_digit_char_def is_decimal_def
      decimal_value_def digit_value_def)

lemma split_no_sep: "sep \<notin> set s \<Longrightarrow> split sep s = [s]"
  by (induction s) auto

lemma split_append_sep: "sep \<notin> set a \<Longrightarrow> split sep (a @ sep # b) = a # split sep b"
  by (induction a) (auto split: list.splits)

lemma strip_id:
  assumes "s \<noteq> []" "\<not> isspace (hd s)" "\<not> isspace (last s)"
  shows "strip s = s"
proof -
  from assms have 1: "dropWhile isspace s = s"
    by (cases s) auto
  from assms have "rev s \<noteq> []" "\<not> isspace (hd (rev s))"
    by (simp_all add: hd_rev)
  then have 2: "dropWhile isspace (rev s) = rev s"
    by (cases "rev s") auto
  show ?thesis by (simp add: strip_def 1 2)
qed

text \<open>The parts of a string \<open>name op F\<close>: three words without a space, set apart by single
  spaces, with no white space before the first and none after the last.\<close>

lemma var_parts_name_op_factor:
  assumes "name \<noteq> []" "\<not> isspace (hd name)" "CHR '' '' \<notin> set name"
    and "CHR '' '' \<notin> set operator"
    and "F \<noteq> []" "\<not> isspace (last F)" "CHR '' '' \<notin> set F"
  shows "var_parts (name @ '' '' @ operator @ '' '' @ F) = [name, operator, F]"
proof -
  let ?s = "name @ '' '' @ operator @ '' '' @ F"
  have "strip ?s = ?s"
    using assms(1,2,5,6) by (intro strip_id) (simp_all add: hd_append)
  moreover have "split (CHR '' '') ?s = [name, operator, F]"
    using assms(3,4,7) by (simp add: split_append_sep split_no_sep)
  ultimately show ?thesis by (simp add: var_parts_def)
qed

lemma var_parts_name:
  assumes "name \<noteq> []" "\<not> isspace (hd name)" "\<not> isspace (last name)" "CHR '' '' \<notin> set name"
  shows "var_parts name = [name]"
  using assms by (simp add: var_parts_def strip_id split_no_sep)

lemma digit_string_last: "digit_string F \<Longrightarrow> F \<noteq> [] \<and> \<not> isspace (last F) \<and> CHR '' '' \<notin> set F"
proof -
  assume d: "digit_string F"
  then have ne: "F \<noteq> []" and all: "\<forall>c\<in>set F. is_decimal c"
    by (simp_all add: digit_string_def list_all_iff)
  have "\<not> isspace c \<and> c \<noteq> CHR '' ''" if "is_decimal c" for c
    using that by (auto simp: is_decimal_def isspace_def)
  with all ne show ?thesis by (metis last_in_set)
qed

text \<open>What a call on a dict or a list returns: the same keys, or as many items, each value
  replaced by what the body of the loop makes of it.\<close>

lemma replace_default_values_entries:
  "replace_default_values fl uv (PDict kvs) = Inr r \<longleftrightarrow>
     (\<exists>kws. r = PDict kws
        \<and> list_all2 (\<lambda>kv kw. fst kw = fst kv \<and> rdv_value fl uv (snd kv) = Inr (snd kw)) kvs kws)"
proof -
  have *: "(case kv of (k, v) \<Rightarrow> map_sum id (Pair k) (rdv_value fl uv v)) = Inr kw
             \<longleftrightarrow> fst kw = fst kv \<and> rdv_value fl uv (snd kv) = Inr (snd kw)" for kv kw
    by (cases kv; cases kw; cases "rdv_value fl uv (snd kv)") auto
  have "replace_default_values fl uv (PDict kvs) = Inr r \<longleftrightarrow>
          (\<exists>kws. for_each (\<lambda>(k, v). map_sum id (Pair k) (rdv_value fl uv v)) kvs = Inr kws
             \<and> r = PDict kws)"
    by (cases "for_each (\<lambda>(k, v). map_sum id (Pair k) (rdv_value fl uv v)) kvs") auto
  then show ?thesis
    unfolding for_each_Inr_iff * by blast
qed

lemma replace_default_values_items:
  "replace_default_values fl uv (PList xs) = Inr r \<longleftrightarrow>
     (\<exists>ys. r = PList ys \<and> list_all2 (\<lambda>x y. rdv_value fl uv x = Inr y) xs ys)"
proof -
  have "replace_default_values fl uv (PList xs) = Inr r \<longleftrightarrow>
          (\<exists>ys. for_each (rdv_value fl uv) xs = Inr ys \<and> r = PList ys)"
    by (cases "for_each (rdv_value fl uv) xs") auto
  then show ?thesis
    unfolding for_each_Inr_iff by blast
qed

text \<open>An operation that accepts its operand has a value, and a placeholder string that is
  well formed, with a value for its name and a defined operation, has an updated value.\<close>

lemma py_add_accepts: "accepts fl ''+'' v n \<Longrightarrow> \<exists>y. py_add fl v n = Inr y"
  by (cases v) (auto simp: accepts_def)

lemma py_mul_accepts: "accepts fl ''x'' v n \<Longrightarrow> \<exists>y. py_mul fl v n = Inr y"
  by (cases v) (auto simp: accepts_def)

lemma get_updated_value_resolves:
  assumes "well_formed s" and "placeholder_value uv s = Some v" and "v \<noteq> PNone"
    and "operation_defined fl uv s"
  shows "\<exists>y. get_updated_value fl uv s = Inr y"
proof (cases "var_parts s")
  case Nil
  with assms show ?thesis by (simp add: placeholder_value_def)
next
  case (Cons name rest)
  with assms have v: "map_of uv name = Some v"
    by (simp add: placeholder_value_def)
  from assms(1) Cons consider "rest = []"
    | F where "rest = [''+'', F]" "digit_string F"
    | F where "rest = [''x'', F]" "digit_string F"
    by (auto simp: well_formed_def split: list.splits)
  then show ?thesis
  proof cases
    case 1
    with Cons v assms(3) show ?thesis
      by (cases v) (simp_all add: get_updated_value_def)
  next
    case 2
    with Cons v assms(4) have "accepts fl ''+'' v (decimal_value F)"
      by (simp add: operation_defined_def)
    then obtain y where "py_add fl v (decimal_value F) = Inr y"
      using py_add_accepts by blast
    with 2 Cons v assms(3) show ?thesis
      by (cases v)
         (simp_all add: get_updated_value_def digit_string_isdigit py_int_digit_string)
  next
    case 3
    with Cons v assms(4) have "accepts fl ''x'' v (decimal_value F)"
      by (simp add: operation_defined_def)
    then obtain y where "py_mul fl v (decimal_value F) = Inr y"
      using py_mul_accepts by blast
    with 3 Cons v assms(3) show ?thesis
      by (cases v)
         (simp_all add: get_updated_value_def digit_string_isdigit py_int_digit_string)
  qed
qed

text \<open>A call that returns has, at every position of the config, what the body of the loop
  makes of the value at this position.\<close>

lemma map_of_list_all2:
  assumes "list_all2 (\<lambda>kv kw. fst kw = fst kv \<and> P (snd kv) (snd kw)) kvs kws"
    and "map_of kvs k = Some v"
  shows "\<exists>w. map_of kws k = Some w \<and> P v w"
  using assms by (induction rule: list_all2_induct) (auto split: if_splits)

lemma rdv_value_at:
  "rdv_value fl uv c = Inr r \<Longrightarrow> item_at c p = Some x \<Longrightarrow>
     \<exists>y. rdv_value fl uv x = Inr y \<and> item_at r p = Some y"
proof (induction p arbitrary: c r)
  case Nil
  then show ?case by simp
next
  case (Cons i p)
  show ?case
  proof (cases c)
    case (PList xs)
    with Cons.prems obtain j where i: "i = Index j" and j: "j < length xs"
      and x: "item_at (xs ! j) p = Some x"
      by (cases i) (auto split: if_splits)
    from Cons.prems(1) PList have "replace_default_values fl uv (PList xs) = Inr r"
      by (simp only: rdv_value.simps)
    then obtain ys where r: "r = PList ys"
      and ys: "list_all2 (\<lambda>x y. rdv_value fl uv x = Inr y) xs ys"
      unfolding replace_default_values_items by blast
    from ys j have "rdv_value fl uv (xs ! j) = Inr (ys ! j)" "j < length ys"
      by (auto simp: list_all2_conv_all_nth)
    with Cons.IH x r i show ?thesis by fastforce
  next
    case (PDict kvs)
    with Cons.prems obtain k v where i: "i = Key k" and v: "map_of kvs k = Some v"
      and x: "item_at v p = Some x"
      by (cases i) (auto split: option.splits)
    from Cons.prems(1) PDict have "replace_default_values fl uv (PDict kvs) = Inr r"
      by (simp only: rdv_value.simps)
    then obtain kws where r: "r = PDict kws"
      and kws: "list_all2 (\<lambda>kv kw. fst kw = fst kv \<and> rdv_value fl uv (snd kv) = Inr (snd kw))
                  kvs kws"
      unfolding replace_default_values_entries by blast
    from map_of_list_all2 [OF kws v] obtain w where "map_of kws k = Some w"
      and "rdv_value fl uv v = Inr w" by blast
    with Cons.IH x r i show ?thesis by fastforce
  qed (use Cons.prems in auto)
qed

lemma item_at_strings_of:
  "item_at c p = Some (PStr s) \<Longrightarrow> s \<in> set (strings_of c)"
proof (induction p arbitrary: c)
  case Nil
  then show ?case by simp
next
  case (Cons i p)
  show ?case
  proof (cases c)
    case (PList xs)
    with Cons.prems obtain j where "j < length xs" "item_at (xs ! j) p = Some (PStr s)"
      by (cases i) (auto split: if_splits)
    with Cons.IH PList show ?thesis by (auto intro!: bexI [of _ "xs ! j"])
  next
    case (PDict kvs)
    with Cons.prems obtain k v where "map_of kvs k = Some v" "item_at v p = Some (PStr s)"
      by (cases i) (auto split: option.splits)
    then have "(k, v) \<in> set kvs" "s \<in> set (strings_of v)"
      using Cons.IH by (auto dest: map_of_SomeD)
    with PDict show ?thesis by (auto intro!: bexI [of _ "(k, v)"])
  qed (use Cons.prems in auto)
qed

lemma first_error_mem:
  "s \<in> set xs \<Longrightarrow> g s = Inl e \<Longrightarrow> \<exists>e'. first_error g xs = Some e'"
  by (induction xs) (auto split: sum.splits)

lemma first_error_before:
  "s \<in> set xs \<Longrightarrow> g s = Inl e \<Longrightarrow>
     \<forall>t\<in>set (takeWhile (\<lambda>t. t \<noteq> s) xs). \<exists>y. g t = Inr y \<Longrightarrow>
     first_error g xs = Some e"
proof (induction xs)
  case Nil
  then show ?case by simp
next
  case (Cons a xs)
  show ?case
  proof (cases "a = s")
    case True
    with Cons.prems show ?thesis by simp
  next
    case False
    with Cons.prems obtain y where "g a = Inr y" by auto
    moreover from False Cons have "first_error g xs = Some e" by simp
    ultimately show ?thesis by simp
  qed
qed

text \<open>The call and a placeholder string \<open>s\<close> at a position \<open>p\<close> of the config: a result has the
  updated value of \<open>s\<close> at \<open>p\<close>; the call returns when \<open>s\<close> and the other placeholder strings
  have updated values; an exception for \<open>s\<close> ends the call, with this exception when the
  strings before \<open>s\<close> have updated values.\<close>

lemma replace_default_values_at:
  assumes "type_of config = DictType \<or> type_of config = ListType"
    and "item_at config p = Some (PStr s)" and "is_placeholder uv s"
  shows "replace_default_values fl uv config = Inr r \<Longrightarrow>
           \<exists>y. get_updated_value fl uv s = Inr y \<and> item_at r p = Some y"
    and "get_updated_value fl uv s = Inr y \<Longrightarrow> others_resolve fl uv config s \<Longrightarrow>
           \<exists>r. replace_default_values fl uv config = Inr r"
    and "get_updated_value fl uv s = Inl e \<Longrightarrow> \<exists>e'. replace_default_values fl uv config = Inl e'"
proof -
  let ?g = "get_updated_value fl uv"
  have char: "error_of (replace_default_values fl uv config)
                = first_error ?g (placeholder_strings uv config)"
    using assms(1) by (rule error_of_replace_default_values)
  have mem: "s \<in> set (placeholder_strings uv config)"
    using assms(2,3) by (simp add: placeholder_strings_def item_at_strings_of)
  have rv: "rdv_value fl uv config = replace_default_values fl uv config"
    using assms(1) by (cases config) simp_all
  show "\<exists>y. ?g s = Inr y \<and> item_at r p = Some y"
    if "replace_default_values fl uv config = Inr r"
    using rdv_value_at [of fl uv config r p "PStr s"] that rv assms(2,3) by simp
  show "\<exists>r. replace_default_values fl uv config = Inr r"
    if "?g s = Inr y" "others_resolve fl uv config s"
  proof -
    from that have "\<forall>t\<in>set (placeholder_strings uv config). \<exists>y. ?g t = Inr y"
      by (auto simp: others_resolve_def list_all_iff error_of_None_iff)
    then have "first_error ?g (placeholder_strings uv config) = None"
      by (simp add: first_error_None_iff)
    with char show ?thesis by (simp add: error_of_None_iff)
  qed
  show "\<exists>e'. replace_default_values fl uv config = Inl e'" if "?g s = Inl e"
    using first_error_mem [where g = ?g, OF mem that] char by (auto simp: error_of_Some_iff)
qed

lemma replace_default_values_raises:
  assumes "type_of config = DictType \<or> type_of config = ListType"
    and "item_at config p = Some (PStr s)" and "is_placeholder uv s"
    and "get_updated_value fl uv s = Inl e" and "resolve_before fl uv config s"
  shows "replace_default_values fl uv config = Inl e"
proof -
  let ?g = "get_updated_value fl uv"
  have char: "error_of (replace_default_values fl uv config)
                = first_error ?g (placeholder_strings uv config)"
    using assms(1) by (rule error_of_replace_default_values)
  have mem: "s \<in> set (placeholder_strings uv config)"
    using assms(2,3) by (simp add: placeholder_strings_def item_at_strings_of)
  from assms(5)
  have "\<forall>t\<in>set (takeWhile (\<lambda>t. t \<noteq> s) (placeholder_strings uv config)). \<exists>y. ?g t = Inr y"
    by (simp add: resolve_before_def list_all_iff error_of_None_iff)
  from first_error_before [where g = ?g, OF mem assms(4) this] char show ?thesis
    by (simp add: error_of_Some_iff)
qed

text \<open>
  C2 (as amended). For a config that is a dict or a list: when some string value, at any
  depth, has as its first part a placeholder whose supplied value is \<^verbatim>\<open>None\<close>, the
  call raises an exception; the exception is the \<^verbatim>\<open>ValueError\<close> that names this
  string when the strings the loop replaces before it all have an updated value. When every
  placeholder string of the config is well formed and refers to a placeholder whose
  supplied value is not \<^verbatim>\<open>None\<close>, and every operator is given a value that it
  accepts (\<open>+\<close> an int, a bool or a float; \<open>x\<close> these, a string or a list), no exception
  is raised; a bare placeholder may have any value but \<^verbatim>\<open>None\<close>.
\<close>

theorem replace_default_values_errors:
  assumes "type_of config = DictType \<or> type_of config = ListType"
  shows "((\<exists>s\<in>set (placeholder_strings uv config). placeholder_value uv s = Some PNone) \<longrightarrow>
            (\<exists>e. replace_default_values fl uv config = Inl e))
       \<and> (\<forall>pre s post.
             placeholder_strings uv config = pre @ s # post
             \<and> (\<forall>t\<in>set pre. \<exists>r. get_updated_value fl uv t = Inr r)
             \<and> placeholder_value uv s = Some PNone \<longrightarrow>
             replace_default_values fl uv config = Inl (ValueError (NoDefaultValue s)))
       \<and> ((\<forall>s\<in>set (placeholder_strings uv config).
               well_formed s
               \<and> (\<exists>v. placeholder_value uv s = Some v \<and> v \<noteq> PNone)
               \<and> operation_defined fl uv s) \<longrightarrow>
            (\<exists>r. replace_default_values fl uv config = Inr r))"
proof -
  let ?g = "get_updated_value fl uv"
  have char: "error_of (replace_default_values fl uv config)
                = first_error ?g (placeholder_strings uv config)"
    using assms by (rule error_of_replace_default_values)
  have a: "\<exists>e. replace_default_values fl uv config = Inl e"
    if "\<exists>s\<in>set (placeholder_strings uv config). placeholder_value uv s = Some PNone"
  proof -
    from that obtain s where s: "s \<in> set (placeholder_strings uv config)"
      and "placeholder_value uv s = Some PNone" by blast
    then have "?g s = Inl (ValueError (NoDefaultValue s))"
      by (simp add: get_updated_value_None)
    with s have "first_error ?g (placeholder_strings uv config) \<noteq> None"
      by (auto simp: first_error_None_iff intro!: bexI [of _ s])
    with char show ?thesis
      by (cases "replace_default_values fl uv config") auto
  qed
  have b: "replace_default_values fl uv config = Inl (ValueError (NoDefaultValue s))"
    if "placeholder_strings uv config = pre @ s # post
          \<and> (\<forall>t\<in>set pre. \<exists>r. ?g t = Inr r) \<and> placeholder_value uv s = Some PNone"
    for pre s post
  proof -
    from that have "?g s = Inl (ValueError (NoDefaultValue s))"
      by (simp add: get_updated_value_None)
    with that have "first_error ?g (placeholder_strings uv config)
                      = Some (ValueError (NoDefaultValue s))"
      by (simp add: first_error_at)
    with char show ?thesis by (simp add: error_of_Some_iff)
  qed
  have c: "\<exists>r. replace_default_values fl uv config = Inr r"
    if "\<forall>s\<in>set (placeholder_strings uv config).
          well_formed s \<and> (\<exists>v. placeholder_value uv s = Some v \<and> v \<noteq> PNone)
          \<and> operation_defined fl uv s"
  proof -
    from that have "\<forall>s\<in>set (placeholder_strings uv config). \<exists>y. ?g s = Inr y"
      using get_updated_value_resolves [where fl = fl and uv = uv] by blast
    then have "first_error ?g (placeholder_strings uv config) = None"
      by (simp add: first_error_None_iff)
    with char show ?thesis by (simp add: error_of_None_iff)
  qed
  from a b c show ?thesis by blast
qed

theorem replace_default_values_errors_witness:
  "replace_default_values example_float_ops
     (updated_values (PInt 17) PNone (PInt 64) [(''paf_graph'', PList [PList [PInt 0, PInt 1]])])
     (PDict [(''channels'', PStr ''num_bodyparts x 2''),
             (''heads'', PList [PStr ''relu'', PStr ''num_individuals''])])
     = (Inl (ValueError (NoDefaultValue ''num_individuals'')) :: pyerr + (string, unit) pyval)
   \<and> (\<exists>r. replace_default_values example_float_ops
          (updated_values (PInt 17) PNone (PInt 64)
             [(''paf_graph'', PList [PList [PInt 0, PInt 1]])])
          (PDict [(''channels'', PStr ''num_bodyparts x 2''),
                  (''edges'', PStr ''paf_graph''),
                  (''heads'', PList [PStr ''relu'', PStr ''num_bodyparts''])])
         = (Inr r :: pyerr + (string, unit) pyval))"
proof -
  let ?uv = "updated_values (PInt 17) PNone (PInt 64)
               [(''paf_graph'', PList [PList [PInt 0, PInt 1]])]
             :: (string \<times> (string, unit) pyval) list"
  let ?c1 = "PDict [(''channels'', PStr ''num_bodyparts x 2''),
                    (''heads'', PList [PStr ''relu'', PStr ''num_individuals''])]
             :: (string, unit) pyval"
  let ?c2 = "PDict [(''channels'', PStr ''num_bodyparts x 2''),
                    (''edges'', PStr ''paf_graph''),
                    (''heads'', PList [PStr ''relu'', PStr ''num_bodyparts''])]
             :: (string, unit) pyval"
  have s1: "placeholder_strings ?uv ?c1 = [''num_bodyparts x 2''] @ ''num_individuals'' # []"
    by (simp add: placeholder_strings_def is_placeholder_def updated_values_def)
  have s2: "placeholder_strings ?uv ?c2 = [''num_bodyparts x 2'', ''paf_graph'', ''num_bodyparts'']"
    by (simp add: placeholder_strings_def is_placeholder_def updated_values_def)
  have g: "get_updated_value example_float_ops ?uv ''num_bodyparts x 2'' = Inr (PInt 34)"
    by (simp add: get_updated_value_def updated_values_def py_int_digit_string)
  have v: "placeholder_value ?uv ''num_individuals'' = Some PNone"
    "placeholder_value ?uv ''num_bodyparts x 2'' = Some (PInt 17)"
    "placeholder_value ?uv ''num_bodyparts'' = Some (PInt 17)"
    "placeholder_value ?uv ''paf_graph'' = Some (PList [PList [PInt 0, PInt 1]])"
    by (simp_all add: placeholder_value_def updated_values_def)
  have w: "well_formed ''num_bodyparts x 2''" "well_formed ''num_bodyparts''"
    "well_formed ''paf_graph''"
    by (simp_all add: well_formed_def)
  have d: "operation_defined example_float_ops ?uv ''num_bodyparts x 2''"
    "operation_defined example_float_ops ?uv ''num_bodyparts''"
    "operation_defined example_float_ops ?uv ''paf_graph''"
    by (simp_all add: operation_defined_def accepts_def updated_values_def)
  have t: "type_of ?c1 = DictType \<or> type_of ?c1 = ListType"
    "type_of ?c2 = DictType \<or> type_of ?c2 = ListType" by simp_all
  have h1: "placeholder_strings ?uv ?c1 = [''num_bodyparts x 2''] @ ''num_individuals'' # []
              \<and> (\<forall>t\<in>set [''num_bodyparts x 2''].
                    \<exists>r. get_updated_value example_float_ops ?uv t = Inr r)
              \<and> placeholder_value ?uv ''num_individuals'' = Some PNone"
    using s1 g v by simp
  have 1: "replace_default_values example_float_ops ?uv ?c1
             = Inl (ValueError (NoDefaultValue ''num_individuals''))"
    using replace_default_values_errors [OF t(1), of ?uv example_float_ops] h1 by blast
  have h2: "\<forall>s\<in>set (placeholder_strings ?uv ?c2).
              well_formed s \<and> (\<exists>v. placeholder_value ?uv s = Some v \<and> v \<noteq> PNone)
              \<and> operation_defined example_float_ops ?uv s"
    using s2 v w d by simp
  have 2: "\<exists>r. replace_default_values example_float_ops ?uv ?c2 = Inr r"
    using replace_default_values_errors [OF t(2), of ?uv example_float_ops] h2 by blast
  from 1 2 show ?thesis by simp
qed

text \<open>
  As stated, C2 fails where a keyword argument is a list: \<^verbatim>\<open>paf_graph + 1\<close> is well
  formed and its placeholder has a value, yet the addition raises a \<^verbatim>\<open>TypeError\<close>;
  and this exception, not a \<^verbatim>\<open>ValueError\<close>, ends the call when a later string
  refers to a placeholder without a value.
\<close>

theorem replace_default_values_errors_counterexample:
  "well_formed ''paf_graph + 1''
   \<and> placeholder_value
        (updated_values PNone (PInt 2) (PInt 64) [(''paf_graph'', PList [PList [PInt 0, PInt 1]])])
        ''paf_graph + 1''
       = Some (PList [PList [PInt 0, PInt 1]] :: (string, unit) pyval)
   \<and> replace_default_values example_float_ops
        (updated_values PNone (PInt 2) (PInt 64) [(''paf_graph'', PList [PList [PInt 0, PInt 1]])])
        (PDict [(''edges'', PStr ''paf_graph + 1'')])
       = (Inl TypeError :: pyerr + (string, unit) pyval)
   \<and> placeholder_value
        (updated_values PNone (PInt 2) (PInt 64) [(''paf_graph'', PList [PList [PInt 0, PInt 1]])])
        ''num_bodyparts''
       = Some (PNone :: (string, unit) pyval)
   \<and> replace_default_values example_float_ops
        (updated_values PNone (PInt 2) (PInt 64) [(''paf_graph'', PList [PList [PInt 0, PInt 1]])])
        (PDict [(''edges'', PStr ''paf_graph + 1''), (''channels'', PStr ''num_bodyparts'')])
       = (Inl TypeError :: pyerr + (string, unit) pyval)"
  by (simp add: well_formed_def placeholder_value_def updated_values_def is_placeholder_def
      get_updated_value_def py_int_digit_string)

text \<open>
  C3 (as amended). Let \<open>s\<close> be a string at a position \<open>p\<close> of the config, at any depth,
  whose first part \<open>name\<close> (after \<^verbatim>\<open>strip\<close> and \<^verbatim>\<open>split(" ")\<close>) is a key of
  \<^verbatim>\<open>updated_values\<close> with a value \<open>v\<close> that is not \<^verbatim>\<open>None\<close>. When \<open>s\<close> is the
  bare name, the result of \<^verbatim>\<open>replace_default_values\<close> has \<open>v\<close> at \<open>p\<close>; when its
  parts are \<open>name + F\<close> with a digit string \<open>F\<close> and \<open>+\<close> accepts \<open>v\<close> (an int, a bool or
  a float), the result has \<^verbatim>\<open>v + int(F)\<close> at \<open>p\<close>; when they are \<open>name x F\<close> and \<open>x\<close>
  accepts \<open>v\<close> (an int, a bool, a float, a string or a list), it has \<^verbatim>\<open>v * int(F)\<close>
  at \<open>p\<close>; and in these cases the call returns when the other placeholder strings of the
  config have updated values. Three parts with a factor that is no digit string or with
  another operator, and any number of parts other than one and three, make the call raise
  an exception, which is the \<^verbatim>\<open>ValueError\<close> for \<open>s\<close> when the placeholder strings
  that the loops reach before \<open>s\<close> have updated values. (By \<open>var_parts_name_op_factor\<close>,
  the parts of the string \<open>name op F\<close> are \<open>name\<close>, \<open>op\<close> and \<open>F\<close>.)
\<close>

theorem placeholder_arithmetic:
  assumes "type_of config = DictType \<or> type_of config = ListType"
    and "item_at config p = Some (PStr s)"
    and "map_of uv name = Some v" and "v \<noteq> PNone"
  shows "(var_parts s = [name] \<longrightarrow>
            (\<forall>r. replace_default_values fl uv config = Inr r \<longrightarrow> item_at r p = Some v)
            \<and> (others_resolve fl uv config s \<longrightarrow>
                 (\<exists>r. replace_default_values fl uv config = Inr r)))
       \<and> (\<forall>F. var_parts s = [name, ''+'', F] \<and> digit_string F
               \<and> accepts fl ''+'' v (decimal_value F) \<longrightarrow>
            (\<exists>y. py_add fl v (decimal_value F) = Inr y
                \<and> (\<forall>r. replace_default_values fl uv config = Inr r \<longrightarrow> item_at r p = Some y))
            \<and> (others_resolve fl uv config s \<longrightarrow>
                 (\<exists>r. replace_default_values fl uv config = Inr r)))
       \<and> (\<forall>F. var_parts s = [name, ''x'', F] \<and> digit_string F
               \<and> accepts fl ''x'' v (decimal_value F) \<longrightarrow>
            (\<exists>y. py_mul fl v (decimal_value F) = Inr y
                \<and> (\<forall>r. replace_default_values fl uv config = Inr r \<longrightarrow> item_at r p = Some y))
            \<and> (others_resolve fl uv config s \<longrightarrow>
                 (\<exists>r. replace_default_values fl uv config = Inr r)))
       \<and> (\<forall>operator F. var_parts s = [name, operator, F]
               \<and> (\<not> digit_string F \<or> (operator \<noteq> ''+'' \<and> operator \<noteq> ''x'')) \<longrightarrow>
            (\<exists>e. replace_default_values fl uv config = Inl e)
            \<and> (resolve_before fl uv config s \<longrightarrow>
                 (\<exists>m. replace_default_values fl uv config = Inl (ValueError m))))
       \<and> (\<forall>rest. var_parts s = name # rest \<and> length rest \<noteq> 0 \<and> length rest \<noteq> 2 \<longrightarrow>
            (\<exists>e. replace_default_values fl uv config = Inl e)
            \<and> (resolve_before fl uv config s \<longrightarrow>
                 replace_default_values fl uv config = Inl (ValueError (CannotParse s))))"
proof (intro conjI allI impI)
  assume a: "var_parts s = [name]"
  then have g: "get_updated_value fl uv s = Inr v"
    using assms(3,4) by (cases v) (simp_all add: get_updated_value_def)
  have p: "is_placeholder uv s"
    using a assms(3) by (rule is_placeholderI)
  note at = replace_default_values_at [OF assms(1,2) p]
  show "item_at r p = Some v" if "replace_default_values fl uv config = Inr r" for r
    using at(1) [OF that] g by simp
  show "\<exists>r. replace_default_values fl uv config = Inr r" if "others_resolve fl uv config s"
    using at(2) [OF g that] .
next
  fix F
  assume a: "var_parts s = [name, ''+'', F] \<and> digit_string F
               \<and> accepts fl ''+'' v (decimal_value F)"
  then obtain y where y: "py_add fl v (decimal_value F) = Inr y"
    using py_add_accepts by blast
  with a have g: "get_updated_value fl uv s = Inr y"
    using assms(3,4)
    by (cases v)
       (simp_all add: get_updated_value_def digit_string_isdigit py_int_digit_string)
  have p: "is_placeholder uv s"
    using a assms(3) by (auto intro: is_placeholderI)
  note at = replace_default_values_at [OF assms(1,2) p]
  have "item_at r p = Some y" if "replace_default_values fl uv config = Inr r" for r
    using at(1) [OF that] g by simp
  with y show "\<exists>y. py_add fl v (decimal_value F) = Inr y
      \<and> (\<forall>r. replace_default_values fl uv config = Inr r \<longrightarrow> item_at r p = Some y)"
    by blast
  show "\<exists>r. replace_default_values fl uv config = Inr r" if "others_resolve fl uv config s"
    using at(2) [OF g that] .
next
  fix F
  assume a: "var_parts s = [name, ''x'', F] \<and> digit_string F
               \<and> accepts fl ''x'' v (decimal_value F)"
  then obtain y where y: "py_mul fl v (decimal_value F) = Inr y"
    using py_mul_accepts by blast
  with a have g: "get_updated_value fl uv s = Inr y"
    using assms(3,4)
    by (cases v)
       (simp_all add: get_updated_value_def digit_string_isdigit py_int_digit_string)
  have p: "is_placeholder uv s"
    using a assms(3) by (auto intro: is_placeholderI)
  note at = replace_default_values_at [OF assms(1,2) p]
  have "item_at r p = Some y" if "replace_default_values fl uv config = Inr r" for r
    using at(1) [OF that] g by simp
  with y show "\<exists>y. py_mul fl v (decimal_value F) = Inr y
      \<and> (\<forall>r. replace_default_values fl uv config = Inr r \<longrightarrow> item_at r p = Some y)"
    by blast
  show "\<exists>r. replace_default_values fl uv config = Inr r" if "others_resolve fl uv config s"
    using at(2) [OF g that] .
next
  fix operator F
  assume a: "var_parts s = [name, operator, F]
               \<and> (\<not> digit_string F \<or> (operator \<noteq> ''+'' \<and> operator \<noteq> ''x''))"
  have "\<exists>m. get_updated_value fl uv s = Inl (ValueError m)"
  proof (cases "digit_string F")
    case True
    with a assms(3,4) show ?thesis
      by (cases v)
         (simp_all add: get_updated_value_def digit_string_isdigit py_int_digit_string)
  next
    case False
    with a assms(3,4) show ?thesis
      by (cases v)
         (simp_all add: get_updated_value_def py_int_not_digit_string)
  qed
  then obtain m where g: "get_updated_value fl uv s = Inl (ValueError m)" ..
  have p: "is_placeholder uv s"
    using a assms(3) by (auto intro: is_placeholderI)
  note at = replace_default_values_at [OF assms(1,2) p]
  show "\<exists>e. replace_default_values fl uv config = Inl e"
    using at(3) [OF g] .
  show "\<exists>m. replace_default_values fl uv config = Inl (ValueError m)"
    if "resolve_before fl uv config s"
    using replace_default_values_raises [OF assms(1,2) p g that] by blast
next
  fix rest
  assume a: "var_parts s = name # rest \<and> length rest \<noteq> 0 \<and> length rest \<noteq> 2"
  then have g: "get_updated_value fl uv s = Inl (ValueError (CannotParse s))"
    using assms(3,4)
    by (cases v; cases rest) (auto simp add: get_updated_value_def split: list.splits)
  have p: "is_placeholder uv s"
    using a assms(3) by (auto intro: is_placeholderI)
  note at = replace_default_values_at [OF assms(1,2) p]
  show "\<exists>e. replace_default_values fl uv config = Inl e"
    using at(3) [OF g] .
  show "replace_default_values fl uv config = Inl (ValueError (CannotParse s))"
    if "resolve_before fl uv config s"
    using replace_default_values_raises [OF assms(1,2) p g that] .
qed

theorem placeholder_arithmetic_witness:
  "(\<exists>r. replace_default_values example_float_ops
           (updated_values (PInt 17) PNone PNone [(''paf_graph'', PList [PInt 0, PInt 1])])
           (PDict [(''channels'', PStr ''num_bodyparts x 2''),
                   (''heads'', PList [PStr ''relu'', PStr ''num_bodyparts + 1'']),
                   (''joints'', PStr ''num_bodyparts''),
                   (''edges'', PStr ''paf_graph x 2'')])
          = (Inr r :: pyerr + (string, unit) pyval)
        \<and> item_at r [Key ''joints''] = Some (PInt 17)
        \<and> item_at r [Key ''heads'', Index 1] = Some (PInt 18)
        \<and> item_at r [Key ''channels''] = Some (PInt 34)
        \<and> item_at r [Key ''edges''] = Some (PList [PInt 0, PInt 1, PInt 0, PInt 1]))
   \<and> (\<exists>m. replace_default_values example_float_ops
           (updated_values (PInt 17) PNone PNone [(''paf_graph'', PList [PInt 0, PInt 1])])
           (PList [PStr ''num_bodyparts - 1''])
          = (Inl (ValueError m) :: pyerr + (string, unit) pyval))
   \<and> (\<exists>m. replace_default_values example_float_ops
           (updated_values (PInt 17) PNone PNone [(''paf_graph'', PList [PInt 0, PInt 1])])
           (PList [PStr ''num_bodyparts x two''])
          = (Inl (ValueError m) :: pyerr + (string, unit) pyval))
   \<and> replace_default_values example_float_ops
        (updated_values (PInt 17) PNone PNone [(''paf_graph'', PList [PInt 0, PInt 1])])
        (PList [PStr ''num_bodyparts x''])
       = (Inl (ValueError (CannotParse ''num_bodyparts x'')) :: pyerr + (string, unit) pyval)"
proof -
  let ?uv = "updated_values (PInt 17) PNone PNone [(''paf_graph'', PList [PInt 0, PInt 1])]
             :: (string \<times> (string, unit) pyval) list"
  let ?c = "PDict [(''channels'', PStr ''num_bodyparts x 2''),
                   (''heads'', PList [PStr ''relu'', PStr ''num_bodyparts + 1'']),
                   (''joints'', PStr ''num_bodyparts''),
                   (''edges'', PStr ''paf_graph x 2'')] :: (string, unit) pyval"
  let ?rdv = "replace_default_values example_float_ops ?uv"
  have n: "map_of ?uv ''num_bodyparts'' = Some (PInt 17)"
    "PInt 17 \<noteq> (PNone :: (string, unit) pyval)"
    by (simp_all add: updated_values_def)
  have g: "map_of ?uv ''paf_graph'' = Some (PList [PInt 0, PInt 1])"
    "PList [PInt 0, PInt 1] \<noteq> (PNone :: (string, unit) pyval)"
    by (simp_all add: updated_values_def)
  have t: "type_of ?c = DictType \<or> type_of ?c = ListType"
    "\<And>s. type_of (PList [PStr s] :: (string, unit) pyval) = DictType
       \<or> type_of (PList [PStr s] :: (string, unit) pyval) = ListType"
    by simp_all
  have p: "item_at ?c [Key ''joints''] = Some (PStr ''num_bodyparts'')"
    "item_at ?c [Key ''heads'', Index 1] = Some (PStr ''num_bodyparts + 1'')"
    "item_at ?c [Key ''channels''] = Some (PStr ''num_bodyparts x 2'')"
    "item_at ?c [Key ''edges''] = Some (PStr ''paf_graph x 2'')"
    "\<And>s. item_at (PList [PStr s] :: (string, unit) pyval) [Index 0] = Some (PStr s)"
    by simp_all
  have o: "others_resolve example_float_ops ?uv ?c s" for s
    by (simp add: others_resolve_def placeholder_strings_def is_placeholder_def
        updated_values_def get_updated_value_def py_int_digit_string)
  have o1: "resolve_before example_float_ops ?uv (PList [PStr s]) s" for s
    by (simp add: resolve_before_def placeholder_strings_def)
  have a: "accepts example_float_ops ''+'' (PInt 17 :: (string, unit) pyval) 1"
    "accepts example_float_ops ''x'' (PInt 17 :: (string, unit) pyval) 2"
    "accepts example_float_ops ''x'' (PList [PInt 0, PInt 1] :: (string, unit) pyval) 2"
    by (simp_all add: accepts_def)
  have r: "\<exists>r. ?rdv ?c = Inr r"
    using placeholder_arithmetic [OF t(1) p(1) n, of example_float_ops] o by simp
  have 1: "?rdv ?c = Inr r \<Longrightarrow> item_at r [Key ''joints''] = Some (PInt 17)" for r
    using placeholder_arithmetic [OF t(1) p(1) n, of example_float_ops] by simp
  have 2: "?rdv ?c = Inr r \<Longrightarrow> item_at r [Key ''heads'', Index 1] = Some (PInt 18)" for r
    using placeholder_arithmetic [OF t(1) p(2) n, of example_float_ops] a by simp
  have 3: "?rdv ?c = Inr r \<Longrightarrow> item_at r [Key ''channels''] = Some (PInt 34)" for r
    using placeholder_arithmetic [OF t(1) p(3) n, of example_float_ops] a by simp
  have 4: "?rdv ?c = Inr r \<Longrightarrow>
             item_at r [Key ''edges''] = Some (PList [PInt 0, PInt 1, PInt 0, PInt 1])" for r
    using placeholder_arithmetic [OF t(1) p(4) g, of example_float_ops] a
    by (simp add: eval_nat_numeral)
  have 5: "\<exists>m. ?rdv (PList [PStr ''num_bodyparts - 1'']) = Inl (ValueError m)"
    using placeholder_arithmetic [OF t(2) p(5) n, of "''num_bodyparts - 1''" example_float_ops]
      o1 [of "''num_bodyparts - 1''"] by simp
  have 6: "\<exists>m. ?rdv (PList [PStr ''num_bodyparts x two'']) = Inl (ValueError m)"
    using placeholder_arithmetic [OF t(2) p(5) n, of "''num_bodyparts x two''" example_float_ops]
      o1 [of "''num_bodyparts x two''"] by simp
  have 7: "?rdv (PList [PStr ''num_bodyparts x'']) = Inl (ValueError (CannotParse ''num_bodyparts x''))"
    using placeholder_arithmetic [OF t(2) p(5) n, of "''num_bodyparts x''" example_float_ops]
      o1 [of "''num_bodyparts x''"] by simp
  from r 1 2 3 4 5 6 7 show ?thesis by blast
qed

text \<open>
  As stated, C3 fails where the operator does not accept the supplied value: for a list
  \<open>v\<close> and the string \<open>name + 1\<close>, the call raises a \<^verbatim>\<open>TypeError\<close> and substitutes
  nothing; and this exception, not a \<^verbatim>\<open>ValueError\<close>, ends the call when a later
  string has an unknown operator.
\<close>

theorem placeholder_arithmetic_counterexample:
  "var_parts ''paf_graph + 1'' = [''paf_graph'', ''+'', ''1'']
   \<and> digit_string ''1''
   \<and> map_of (updated_values (PInt 17) (PInt 2) (PInt 64)
               [(''paf_graph'', PList [PList [PInt 0, PInt 1]])]) ''paf_graph''
       = Some (PList [PList [PInt 0, PInt 1]] :: (string, unit) pyval)
   \<and> item_at (PDict [(''model'', PDict [(''edges'', PStr ''paf_graph + 1'')])]
               :: (string, unit) pyval) [Key ''model'', Key ''edges'']
       = Some (PStr ''paf_graph + 1'')
   \<and> replace_default_values example_float_ops
        (updated_values (PInt 17) (PInt 2) (PInt 64)
           [(''paf_graph'', PList [PList [PInt 0, PInt 1]])])
        (PDict [(''model'', PDict [(''edges'', PStr ''paf_graph + 1'')])])
       = (Inl TypeError :: pyerr + (string, unit) pyval)
   \<and> var_parts ''num_bodyparts - 1'' = [''num_bodyparts'', ''-'', ''1'']
   \<and> map_of (updated_values (PInt 17) (PInt 2) (PInt 64)
               [(''paf_graph'', PList [PList [PInt 0, PInt 1]])]) ''num_bodyparts''
       = Some (PInt 17 :: (string, unit) pyval)
   \<and> replace_default_values example_float_ops
        (updated_values (PInt 17) (PInt 2) (PInt 64)
           [(''paf_graph'', PList [PList [PInt 0, PInt 1]])])
        (PList [PStr ''paf_graph + 1'', PStr ''num_bodyparts - 1''])
       = (Inl TypeError :: pyerr + (string, unit) pyval)"
  by (simp add: updated_values_def is_placeholder_def get_updated_value_def py_int_digit_string)

text \<open>
  C6. \<^verbatim>\<open>replace_default_values\<close> checks the type of its argument: a config that is
  neither a dict nor a list raises the \<^verbatim>\<open>ValueError\<close> that names its type, and a
  dict or a list never raises this error, at any depth.
\<close>

theorem replace_default_values_type_check:
  "(type_of config \<noteq> DictType \<and> type_of config \<noteq> ListType \<longrightarrow>
      replace_default_values fl uv config = Inl (ValueError (ConfigMustBeDictOrList (type_of config))))
   \<and> (type_of config = DictType \<or> type_of config = ListType \<longrightarrow>
      (\<forall>t. replace_default_values fl uv config \<noteq> Inl (ValueError (ConfigMustBeDictOrList t))))"
  using rdv_no_type_check(1) [of config fl uv] by (cases config) auto

theorem replace_default_values_type_check_witness:
  "replace_default_values example_float_ops (updated_values (PInt 17) PNone PNone [])
      (PStr ''num_bodyparts'')
     = (Inl (ValueError (ConfigMustBeDictOrList StrType)) :: pyerr + (string, unit) pyval)
   \<and> replace_default_values example_float_ops (updated_values (PInt 17) PNone PNone [])
      (PList [PStr ''num_individuals''])
     \<noteq> (Inl (ValueError (ConfigMustBeDictOrList StrType)) :: pyerr + (string, unit) pyval)"
  using replace_default_values_type_check
          [of "PStr ''num_bodyparts'' :: (string, unit) pyval" example_float_ops
              "updated_values (PInt 17) PNone PNone []"]
        replace_default_values_type_check
          [of "PList [PStr ''num_individuals''] :: (string, unit) pyval" example_float_ops
              "updated_values (PInt 17) PNone PNone []"]
  by simp

text \<open>
  C10. When every supplied placeholder value is an integer and the call returns, its
  result holds no placeholder string, has the shape of the input (the same keys and the
  same lengths at every depth), and a second call with the same arguments returns it
  unchanged.
\<close>

theorem replace_default_values_idempotent:
  assumes "list_all (\<lambda>nv. is_int (snd nv)) uv"
    and "replace_default_values fl uv config = Inr r"
  shows "placeholder_strings uv r = [] \<and> shape_of r = shape_of config
           \<and> replace_default_values fl uv r = Inr r"
proof -
  from assms(2) have c: "type_of config = DictType \<or> type_of config = ListType"
    by (cases config) auto
  then have "rdv_value fl uv config = Inr r"
    using assms(2) by (cases config) auto
  from rdv_value_idempotent [OF assms(1) this]
  have *: "placeholder_strings uv r = []" "shape_of r = shape_of config"
    "rdv_value fl uv r = Inr r" by simp_all
  from *(2) c have "type_of r = DictType \<or> type_of r = ListType"
    by (cases config; cases r) auto
  with *(3) have "replace_default_values fl uv r = Inr r"
    by (cases r) auto
  with * show ?thesis by simp
qed

theorem replace_default_values_idempotent_witness:
  "placeholder_strings (updated_values (PInt 17) (PInt 2) (PInt 64) [])
      (PDict [(''channels'', PInt 34), (''heads'', PList [PStr ''relu'', PInt 2, PNone])]
        :: (string, unit) pyval) = []
   \<and> shape_of (PDict [(''channels'', PInt 34), (''heads'', PList [PStr ''relu'', PInt 2, PNone])]
        :: (string, unit) pyval)
     = shape_of (PDict [(''channels'', PStr ''num_bodyparts x 2''),
                        (''heads'', PList [PStr ''relu'', PStr ''num_individuals'', PNone])]
        :: (string, unit) pyval)
   \<and> replace_default_values example_float_ops (updated_values (PInt 17) (PInt 2) (PInt 64) [])
       (PDict [(''channels'', PInt 34), (''heads'', PList [PStr ''relu'', PInt 2, PNone])])
     = (Inr (PDict [(''channels'', PInt 34), (''heads'', PList [PStr ''relu'', PInt 2, PNone])])
         :: pyerr + (string, unit) pyval)"
proof -
  let ?uv = "updated_values (PInt 17) (PInt 2) (PInt 64) [] :: (string \<times> (string, unit) pyval) list"
  have ints: "list_all (\<lambda>nv. is_int (snd nv)) ?uv"
    by (simp add: updated_values_def is_int_def)
  have run: "replace_default_values example_float_ops ?uv
               (PDict [(''channels'', PStr ''num_bodyparts x 2''),
                       (''heads'', PList [PStr ''relu'', PStr ''num_individuals'', PNone])])
             = Inr (PDict [(''channels'', PInt 34), (''heads'', PList [PStr ''relu'', PInt 2, PNone])])"
    by (simp add: is_placeholder_def get_updated_value_def updated_values_def py_int_digit_string)
  from replace_default_values_idempotent [OF ints run] show ?thesis .
qed

section \<open>Properties of \<^verbatim>\<open>update_config\<close>\<close>

lemma update_config_step:
  "(case (map_of config k, v) of
      (Some (PDict c), PDict u) \<Rightarrow> AList.update k (PDict (update_config c u)) config
    | _ \<Rightarrow> AList.update k v config)
   = AList.update k (merge_entry (map_of config k) v) config"
  by (simp add: merge_entry_def split: option.splits pyval.splits)

lemma update_config_Cons:
  "update_config config ((k, v) # updates)
     = update_config (AList.update k (merge_entry (map_of config k) v) config) updates"
  by (subst update_config.simps) (simp only: update_config_step)

text \<open>
  C4 (as amended). For dicts \<open>config\<close> and \<open>updates\<close> given as values (no dict of
  \<open>config\<close> is shared between two of its positions), the result of \<^verbatim>\<open>update_config\<close>
  has, at each key of \<open>updates\<close>, the recursive merge of the two values when \<open>config\<close>
  has the key and both values are dicts, and the value of \<open>updates\<close> otherwise; every
  other key has the value that \<open>config\<close> has for it, or none.
\<close>

theorem update_config_lookup:
  assumes "distinct (map fst updates)"
  shows "map_of (update_config config updates) k =
           (case map_of updates k of
              None \<Rightarrow> map_of config k
            | Some v \<Rightarrow>
                (case (map_of config k, v) of
                   (Some (PDict c), PDict u) \<Rightarrow> Some (PDict (update_config c u))
                 | _ \<Rightarrow> Some v))"
proof -
  have "map_of (update_config config updates) k =
          (case map_of updates k of
             None \<Rightarrow> map_of config k
           | Some v \<Rightarrow> Some (merge_entry (map_of config k) v))"
    using assms
  proof (induction updates arbitrary: config)
    case Nil
    show ?case by simp
  next
    case (Cons kv updates)
    obtain k' v' where kv: "kv = (k', v')" by (cases kv)
    let ?config = "AList.update k' (merge_entry (map_of config k') v') config"
    from Cons.prems kv have d: "distinct (map fst updates)" and fresh: "k' \<notin> fst ` set updates"
      by auto
    have IH: "map_of (update_config ?config updates) k =
                (case map_of updates k of
                   None \<Rightarrow> map_of ?config k
                 | Some v \<Rightarrow> Some (merge_entry (map_of ?config k) v))"
      using Cons.IH [OF d] .
    show ?case
    proof (cases "k = k'")
      case True
      with fresh have "map_of updates k = None"
        by (simp add: map_of_eq_None_iff)
      with IH True kv show ?thesis
        by (simp add: update_config_Cons update_conv' del: update_config.simps
            cong: option.case_cong)
    next
      case False
      with IH kv show ?thesis
        by (simp add: update_config_Cons update_conv' del: update_config.simps
            cong: option.case_cong)
    qed
  qed
  then show ?thesis
    by (simp add: merge_entry_def split: option.splits pyval.splits)
qed

theorem update_config_lookup_witness:
  "map_of (update_config
      [(''train'', PDict [(''epochs'', PInt 10), (''lr'', PInt 1)]), (''seed'', PInt 42),
       (''device'', PStr ''cpu'')]
      [(''train'', PDict [(''epochs'', PInt 200)]), (''device'', PDict [(''id'', PInt 0)]),
       (''method'', PStr ''bu'')]) ''train''
     = Some (PDict [(''epochs'', PInt 200), (''lr'', PInt 1)] :: (string, unit) pyval)
   \<and> map_of (update_config
      [(''train'', PDict [(''epochs'', PInt 10), (''lr'', PInt 1)]), (''seed'', PInt 42),
       (''device'', PStr ''cpu'')]
      [(''train'', PDict [(''epochs'', PInt 200)]), (''device'', PDict [(''id'', PInt 0)]),
       (''method'', PStr ''bu'')]) ''device''
     = Some (PDict [(''id'', PInt 0)] :: (string, unit) pyval)
   \<and> map_of (update_config
      [(''train'', PDict [(''epochs'', PInt 10), (''lr'', PInt 1)]), (''seed'', PInt 42),
       (''device'', PStr ''cpu'')]
      [(''train'', PDict [(''epochs'', PInt 200)]), (''device'', PDict [(''id'', PInt 0)]),
       (''method'', PStr ''bu'')]) ''seed''
     = Some (PInt 42 :: (string, unit) pyval)"
proof -
  let ?c = "[(''train'', PDict [(''epochs'', PInt 10), (''lr'', PInt 1)]), (''seed'', PInt 42),
       (''device'', PStr ''cpu'')] :: (string \<times> (string, unit) pyval) list"
  let ?u = "[(''train'', PDict [(''epochs'', PInt 200)]), (''device'', PDict [(''id'', PInt 0)]),
       (''method'', PStr ''bu'')] :: (string \<times> (string, unit) pyval) list"
  have d: "distinct (map fst ?u)" by simp
  show ?thesis
    using update_config_lookup [OF d, of ?c "''train''"]
      update_config_lookup [OF d, of ?c "''device''"]
      update_config_lookup [OF d, of ?c "''seed''"]
    by simp
qed

section \<open>Properties of \<^verbatim>\<open>TopDownPredictor\<close>\<close>

lemma dims2_nth:
  "dims2 m B N \<longleftrightarrow> length m = B \<and> (\<forall>b<B. length (m ! b) = N)"
  by (auto simp: dims2_def all_set_conv_all_nth)

lemma dims3_nth:
  "dims3 t B N K \<longleftrightarrow>
     length t = B \<and> (\<forall>b<B. length (t ! b) = N \<and> (\<forall>n<N. length (t ! b ! n) = K))"
  by (auto simp: dims3_def dims2_nth all_set_conv_all_nth)

lemma dims4_nth:
  "dims4 t B N J C \<longleftrightarrow>
     length t = B \<and> (\<forall>b<B. length (t ! b) = N \<and> (\<forall>n<N. length (t ! b ! n) = J
        \<and> (\<forall>j<J. length (t ! b ! n ! j) = C)))"
  by (auto simp: dims4_def dims3_nth all_set_conv_all_nth)

lemma num_joints_of_dims4:
  assumes "dims4 t B N J C" "0 < B" "0 < N"
  shows "num_joints_of t = J"
proof -
  from assms have l: "length t = B" "length (t ! 0) = N" "length (t ! 0 ! 0) = J"
    by (auto simp: dims4_nth)
  with assms obtain row rest where t: "t = row # rest" by (cases t) auto
  with l assms obtain inst rest' where "row = inst # rest'" by (cases row) auto
  with t l show ?thesis by (simp add: num_joints_of_def)
qed

lemma remapped_nth:
  assumes "dims3 boxes B N K" "dims4 t B N J C" "b < B" "n < N" "j < J"
  shows "remapped ar J c cs cc boxes t ! b ! n ! j
           = (t ! b ! n ! j)
               [c := t_add ar (t_mul ar (t_div ar (boxes ! b ! n ! cs) (c256 ar)) (t ! b ! n ! j ! c))
                       (boxes ! b ! n ! cc)]"
proof -
  from assms have l: "length boxes = B" "length t = B" "length (boxes ! b) = N"
    "length (t ! b) = N" "length (t ! b ! n) = J"
    by (auto simp: dims3_nth dims4_nth)
  with assms(3-5) show ?thesis
    by (simp add: remapped_def assign_channel_def elementwise_def unsqueeze_expand_def
        div_scalar_def select3_def select4_def)
qed

lemma remapped_dims:
  assumes "dims3 boxes B N K" "dims4 t B N J C"
  shows "dims4 (remapped ar J c cs cc boxes t) B N J C"
  using assms
  by (simp add: dims3_nth dims4_nth remapped_def assign_channel_def elementwise_def
      unsqueeze_expand_def div_scalar_def select3_def select4_def)

lemma length4: "length box = 4 \<Longrightarrow> \<exists>a b c d. box = [a, b, c, d]"
  by (auto simp: eval_nat_numeral length_Suc_conv)

lemma to_coco_updates:
  assumes "length box = 4"
  shows "(box[2 := t_sub ar (box ! 2) (box ! 0)])
           [3 := t_sub ar (box[2 := t_sub ar (box ! 2) (box ! 0)] ! 3)
                   (box[2 := t_sub ar (box ! 2) (box ! 0)] ! 1)]
         = to_coco ar box"
proof -
  from assms obtain a b c d where "box = [a, b, c, d]"
    using length4 by blast
  then show ?thesis by (simp add: to_coco_def)
qed

lemma convert_bbox_to_coco_eq:
  assumes "bboxes < length (rank3 s)" "dims3 (rank3 s ! bboxes) B N 4"
  shows "convert_bbox_to_coco ar s bboxes
           = (s\<lparr>rank3 := rank3 s @ [map (map (to_coco ar)) (rank3 s ! bboxes)]\<rparr>,
              length (rank3 s))"
proof -
  have "\<forall>row\<in>set (rank3 s ! bboxes). \<forall>box\<in>set row. length box = 4"
    using assms(2) by (auto simp: dims3_def dims2_def)
  then have "map (map (\<lambda>box. (box[2 := t_sub ar (box ! 2) (box ! 0)])
                 [3 := t_sub ar (box[2 := t_sub ar (box ! 2) (box ! 0)] ! 3)
                         (box[2 := t_sub ar (box ! 2) (box ! 0)] ! 1)])) (rank3 s ! bboxes)
               = map (map (to_coco ar)) (rank3 s ! bboxes)"
    using to_coco_updates [where ar = ar] by (intro map_cong refl) blast
  then show ?thesis
    by (simp add: convert_bbox_to_coco_def clone3_def isub_channel_def comp_def)
qed

lemma dims3_to_coco:
  "dims3 boxes B N 4 \<Longrightarrow> dims3 (map (map (to_coco ar)) boxes) B N 4"
  by (simp add: dims3_nth to_coco_def)

lemma dims3_coco_boxes:
  "dims3 boxes B N 4 \<Longrightarrow> dims3 (coco_boxes format_bbox ar boxes) B N 4"
  by (simp add: coco_boxes_def dims3_to_coco)

lemma coco_boxes_nth:
  "dims3 boxes B N 4 \<Longrightarrow> b < B \<Longrightarrow> n < N \<Longrightarrow>
     coco_boxes format_bbox ar boxes ! b ! n
       = (if format_bbox \<noteq> ''coco'' then to_coco ar (boxes ! b ! n) else boxes ! b ! n)"
  by (simp add: coco_boxes_def dims3_nth)

text \<open>The call as a whole: the store it leaves and the dictionary it returns.\<close>

lemma forward_eq:
  assumes "bboxes < length (rank3 s)" "dims3 (rank3 s ! bboxes) B N 4"
  shows "forward format_bbox ar s bboxes keypoints_cropped
           = (\<lparr>rank3 = (if format_bbox \<noteq> ''coco''
                        then rank3 s @ [map (map (to_coco ar)) (rank3 s ! bboxes)]
                        else rank3 s),
               rank4 = rank4 s @
                 [remapped ar (num_joints_of (rank4 s ! keypoints_cropped)) 1 3 1
                    (coco_boxes format_bbox ar (rank3 s ! bboxes))
                    (remapped ar (num_joints_of (rank4 s ! keypoints_cropped)) 0 2 0
                       (coco_boxes format_bbox ar (rank3 s ! bboxes))
                       (rank4 s ! keypoints_cropped))]\<rparr>,
              [(''poses'', length (rank4 s))])"
  using assms(1)
  by (simp add: forward_def convert_bbox_to_coco_eq [OF assms] clone4_def remapped_def
      coco_boxes_def Let_def nth_append)

text \<open>
  C1. For boxes of shape \<open>(B, N, 4)\<close> and cropped keypoints of shape \<open>(B, N, J, C)\<close>, the
  tensor that \<^verbatim>\<open>forward\<close> returns under \<^verbatim>\<open>"poses"\<close> holds, for each instance and
  joint, the cropped keypoint with \<open>x = (w / 256) * x_c + x\<close> and \<open>y = (h / 256) * y_c + y\<close>
  in its first two components, where \<open>(x, y, w, h)\<close> is the box in coco format: the box
  as given when the predictor's format is \<^verbatim>\<open>"coco"\<close>, the converted box otherwise.
\<close>

theorem forward_poses:
  assumes "bboxes < length (rank3 s)" and "keypoints_cropped < length (rank4 s)"
    and "dims3 (rank3 s ! bboxes) B N 4"
    and "dims4 (rank4 s ! keypoints_cropped) B N J C" and "2 \<le> C"
    and "b < B" and "n < N" and "j < J"
    and "forward format_bbox ar s bboxes keypoints_cropped = (s', out)"
  shows "\<exists>poses. map_of out ''poses'' = Some poses \<and>
           rank4 s' ! poses ! b ! n ! j =
             (let box = (if format_bbox = ''coco'' then rank3 s ! bboxes ! b ! n
                         else to_coco ar (rank3 s ! bboxes ! b ! n));
                  kp = rank4 s ! keypoints_cropped ! b ! n ! j
              in kp[0 := t_add ar (t_mul ar (t_div ar (box ! 2) (c256 ar)) (kp ! 0)) (box ! 0),
                    1 := t_add ar (t_mul ar (t_div ar (box ! 3) (c256 ar)) (kp ! 1)) (box ! 1)])"
proof -
  let ?K = "rank4 s ! keypoints_cropped"
  let ?Bx = "coco_boxes format_bbox ar (rank3 s ! bboxes)"
  have J: "num_joints_of ?K = J"
    using assms(4,6,7) by (intro num_joints_of_dims4 [where B = B and N = N and C = C]) auto
  have dB: "dims3 ?Bx B N 4"
    using assms(3) by (rule dims3_coco_boxes)
  have d0: "dims4 (remapped ar J 0 2 0 ?Bx ?K) B N J C"
    using dB assms(4) by (rule remapped_dims)
  have box: "?Bx ! b ! n = (if format_bbox \<noteq> ''coco'' then to_coco ar (rank3 s ! bboxes ! b ! n)
                            else rank3 s ! bboxes ! b ! n)"
    using assms(3,6,7) by (rule coco_boxes_nth)
  have "remapped ar J 1 3 1 ?Bx (remapped ar J 0 2 0 ?Bx ?K) ! b ! n ! j
          = (remapped ar J 0 2 0 ?Bx ?K ! b ! n ! j)
              [1 := t_add ar (t_mul ar (t_div ar (?Bx ! b ! n ! 3) (c256 ar))
                        (remapped ar J 0 2 0 ?Bx ?K ! b ! n ! j ! 1)) (?Bx ! b ! n ! 1)]"
    using dB d0 assms(6-8) by (rule remapped_nth)
  also have "remapped ar J 0 2 0 ?Bx ?K ! b ! n ! j
          = (?K ! b ! n ! j)
              [0 := t_add ar (t_mul ar (t_div ar (?Bx ! b ! n ! 2) (c256 ar))
                        (?K ! b ! n ! j ! 0)) (?Bx ! b ! n ! 0)]"
    using dB assms(4) assms(6-8) by (rule remapped_nth)
  finally have "remapped ar J 1 3 1 ?Bx (remapped ar J 0 2 0 ?Bx ?K) ! b ! n ! j
          = (?K ! b ! n ! j)
              [0 := t_add ar (t_mul ar (t_div ar (?Bx ! b ! n ! 2) (c256 ar))
                        (?K ! b ! n ! j ! 0)) (?Bx ! b ! n ! 0),
               1 := t_add ar (t_mul ar (t_div ar (?Bx ! b ! n ! 3) (c256 ar))
                        (?K ! b ! n ! j ! 1)) (?Bx ! b ! n ! 1)]"
    by simp
  with assms(9) show ?thesis
    unfolding forward_eq [OF assms(1,3)] J box by (auto simp: Let_def)
qed

theorem forward_poses_witness:
  "\<exists>poses. map_of (snd (forward ''xyxy'' int_arith example_store 0 0)) ''poses'' = Some poses
     \<and> rank4 (fst (forward ''xyxy'' int_arith example_store 0 0)) ! poses ! 0 ! 0 ! 1
         = [262, 528, 8]"
proof -
  have a: "(0::nat) < length (rank3 example_store)" "(0::nat) < length (rank4 example_store)"
    "dims3 (rank3 example_store ! 0) 1 1 4" "dims4 (rank4 example_store ! 0) 1 1 2 3"
    "(2::nat) \<le> 3" "(0::nat) < 1" "(0::nat) < 1" "(1::nat) < 2"
    by (simp_all add: example_store_def dims2_def dims3_def dims4_def)
  have f: "forward ''xyxy'' int_arith example_store 0 0
             = (fst (forward ''xyxy'' int_arith example_store 0 0),
                snd (forward ''xyxy'' int_arith example_store 0 0))"
    by simp
  from forward_poses [OF a f] show ?thesis
    by (simp add: example_store_def to_coco_def int_arith_def)
qed

text \<open>
  C8. \<^verbatim>\<open>_convert_bbox_to_coco\<close> returns a new tensor that holds
  \<open>(x1, y1, x2 - x1, y2 - y1)\<close> for every box \<open>(x1, y1, x2, y2)\<close> of its argument, and leaves
  its argument and every other tensor of the store as they were; \<^verbatim>\<open>forward\<close> runs the
  conversion exactly when the format is not \<^verbatim>\<open>"coco"\<close>: the three-dimensional tensors
  it leaves are those of the conversion then, and those it found otherwise.
\<close>

theorem convert_bbox_to_coco_correct:
  assumes "bboxes < length (rank3 s)" and "dims3 (rank3 s ! bboxes) B N 4"
  shows "(case convert_bbox_to_coco ar s bboxes of
            (s', coco_bboxes) \<Rightarrow>
              dims3 (rank3 s' ! coco_bboxes) B N 4
              \<and> (\<forall>b<B. \<forall>n<N.
                    rank3 s' ! coco_bboxes ! b ! n =
                      [rank3 s ! bboxes ! b ! n ! 0,
                       rank3 s ! bboxes ! b ! n ! 1,
                       t_sub ar (rank3 s ! bboxes ! b ! n ! 2) (rank3 s ! bboxes ! b ! n ! 0),
                       t_sub ar (rank3 s ! bboxes ! b ! n ! 3) (rank3 s ! bboxes ! b ! n ! 1)])
              \<and> rank3 s' ! bboxes = rank3 s ! bboxes
              \<and> take (length (rank3 s)) (rank3 s') = rank3 s
              \<and> rank4 s' = rank4 s)
       \<and> rank3 (fst (forward format_bbox ar s bboxes keypoints_cropped))
           = (if format_bbox \<noteq> ''coco'' then rank3 (fst (convert_bbox_to_coco ar s bboxes))
              else rank3 s)"
  using assms
  by (simp add: convert_bbox_to_coco_eq [OF assms] forward_eq [OF assms] nth_append
      dims3_to_coco)
    (simp add: dims3_nth to_coco_def)

theorem convert_bbox_to_coco_correct_witness:
  "rank3 (fst (convert_bbox_to_coco int_arith example_store 0)) ! 1 ! 0 ! 0
     = [256, 512, 512, 1024]
   \<and> rank3 (fst (convert_bbox_to_coco int_arith example_store 0)) ! 0 = rank3 example_store ! 0
   \<and> length (rank3 (fst (forward ''xyxy'' int_arith example_store 0 0))) = 2
   \<and> length (rank3 (fst (forward ''coco'' int_arith example_store 0 0))) = 1"
proof -
  have a: "(0::nat) < length (rank3 example_store)" "dims3 (rank3 example_store ! 0) 1 1 4"
    by (simp_all add: example_store_def dims2_def dims3_def)
  have c: "convert_bbox_to_coco int_arith example_store 0
             = (example_store\<lparr>rank3 := rank3 example_store @ [[[[256, 512, 512, 1024]]]]\<rparr>, 1)"
    by (simp add: convert_bbox_to_coco_def clone3_def isub_channel_def example_store_def
        int_arith_def)
  from convert_bbox_to_coco_correct [OF a, of int_arith "''xyxy''" 0]
    convert_bbox_to_coco_correct [OF a, of int_arith "''coco''" 0]
  show ?thesis
    by (simp add: c) (simp add: example_store_def int_arith_def)
qed

text \<open>
  C9. The tensor under \<^verbatim>\<open>"poses"\<close> has the shape of the cropped keypoints and their
  components from the third on (the score), and the call leaves both of its arguments as
  they were.
\<close>

theorem forward_frame:
  assumes "bboxes < length (rank3 s)" and "keypoints_cropped < length (rank4 s)"
    and "dims3 (rank3 s ! bboxes) B N 4"
    and "dims4 (rank4 s ! keypoints_cropped) B N J C"
    and "forward format_bbox ar s bboxes keypoints_cropped = (s', out)"
  shows "\<exists>poses. map_of out ''poses'' = Some poses
           \<and> dims4 (rank4 s' ! poses) B N J C
           \<and> (\<forall>b<B. \<forall>n<N. \<forall>j<J. \<forall>c<C. 2 \<le> c \<longrightarrow>
                 rank4 s' ! poses ! b ! n ! j ! c = rank4 s ! keypoints_cropped ! b ! n ! j ! c)
           \<and> rank3 s' ! bboxes = rank3 s ! bboxes
           \<and> rank4 s' ! keypoints_cropped = rank4 s ! keypoints_cropped"
proof -
  let ?K = "rank4 s ! keypoints_cropped"
  let ?Bx = "coco_boxes format_bbox ar (rank3 s ! bboxes)"
  let ?J = "num_joints_of ?K"
  let ?P = "remapped ar ?J 1 3 1 ?Bx (remapped ar ?J 0 2 0 ?Bx ?K)"
  have dB: "dims3 ?Bx B N 4"
    using assms(3) by (rule dims3_coco_boxes)
  have same: "?P ! b ! n ! j ! c = ?K ! b ! n ! j ! c"
    if "b < B" "n < N" "j < J" "2 \<le> c" for b n j c
  proof -
    have J: "?J = J"
      using assms(4) that by (intro num_joints_of_dims4 [where B = B and N = N and C = C]) auto
    have d0: "dims4 (remapped ar J 0 2 0 ?Bx ?K) B N J C"
      using dB assms(4) by (rule remapped_dims)
    show ?thesis
      unfolding J
      using that remapped_nth [OF dB d0 that(1-3), of ar 1 3 1]
        remapped_nth [OF dB assms(4) that(1-3), of ar 0 2 0]
      by simp
  qed
  have dims: "dims4 ?P B N J C"
  proof (cases "0 < B \<and> 0 < N")
    case True
    then have "?J = J"
      using assms(4) by (intro num_joints_of_dims4 [where B = B and N = N and C = C]) auto
    moreover have d0: "dims4 (remapped ar J 0 2 0 ?Bx ?K) B N J C"
      using dB assms(4) by (rule remapped_dims)
    moreover have "dims4 (remapped ar J 1 3 1 ?Bx (remapped ar J 0 2 0 ?Bx ?K)) B N J C"
      using dB d0 by (rule remapped_dims)
    ultimately show ?thesis by simp
  next
    case False
    with assms(3,4) show ?thesis
      by (auto simp: dims3_nth dims4_nth remapped_def assign_channel_def elementwise_def
          unsqueeze_expand_def div_scalar_def select3_def select4_def coco_boxes_def)
  qed
  from assms(5) dims same assms(1,2) show ?thesis
    unfolding forward_eq [OF assms(1,3)] by (auto simp: nth_append)
qed

theorem forward_frame_witness:
  "\<exists>poses. map_of (snd (forward ''xyxy'' int_arith example_store 0 0)) ''poses'' = Some poses
     \<and> dims4 (rank4 (fst (forward ''xyxy'' int_arith example_store 0 0)) ! poses) 1 1 2 3
     \<and> rank4 (fst (forward ''xyxy'' int_arith example_store 0 0)) ! poses ! 0 ! 0 ! 1 ! 2 = 8
     \<and> rank3 (fst (forward ''xyxy'' int_arith example_store 0 0)) ! 0 = [[[256, 512, 768, 1536]]]
     \<and> rank4 (fst (forward ''xyxy'' int_arith example_store 0 0)) ! 0
         = [[[[1, 2, 9], [3, 4, 8]]]]"
proof -
  have a: "(0::nat) < length (rank3 example_store)" "(0::nat) < length (rank4 example_store)"
    "dims3 (rank3 example_store ! 0) 1 1 4" "dims4 (rank4 example_store ! 0) 1 1 2 3"
    by (simp_all add: example_store_def dims2_def dims3_def dims4_def)
  have f: "forward ''xyxy'' int_arith example_store 0 0
             = (fst (forward ''xyxy'' int_arith example_store 0 0),
                snd (forward ''xyxy'' int_arith example_store 0 0))"
    by simp
  from forward_frame [OF a f] obtain poses where
    p: "map_of (snd (forward ''xyxy'' int_arith example_store 0 0)) ''poses'' = Some poses"
    "dims4 (rank4 (fst (forward ''xyxy'' int_arith example_store 0 0)) ! poses) 1 1 2 3"
    "\<forall>b<1. \<forall>n<1. \<forall>j<2. \<forall>c<3. 2 \<le> c \<longrightarrow>
       rank4 (fst (forward ''xyxy'' int_arith example_store 0 0)) ! poses ! b ! n ! j ! c
         = rank4 example_store ! 0 ! b ! n ! j ! c"
    "rank3 (fst (forward ''xyxy'' int_arith example_store 0 0)) ! 0 = rank3 example_store ! 0"
    "rank4 (fst (forward ''xyxy'' int_arith example_store 0 0)) ! 0 = rank4 example_store ! 0"
    by blast
  from p(3) have "rank4 (fst (forward ''xyxy'' int_arith example_store 0 0)) ! poses ! 0 ! 0 ! 1 ! 2
                    = rank4 example_store ! 0 ! 0 ! 0 ! 1 ! 2"
    by simp
  with p show ?thesis
    by (intro exI [of _ poses]) (simp add: example_store_def)
qed

section \<open>Properties of the command line\<close>

text \<open>
  C7. The entry point accepts the four options \<^verbatim>\<open>--config-path\<close>, \<^verbatim>\<open>--shuffle\<close>
  (default 1), \<^verbatim>\<open>--train-ind\<close> (default 0) and \<^verbatim>\<open>--modelprefix\<close> (default
  \<^verbatim>\<open>""\<close>) and no other, and calls \<^verbatim>\<open>train_network\<close> with the four values as
  \<^verbatim>\<open>config\<close>, \<^verbatim>\<open>shuffle\<close>, \<^verbatim>\<open>trainingsetindex\<close> and \<^verbatim>\<open>modelprefix\<close>, which
  \<^verbatim>\<open>train_network\<close> hands to the loader; called with a config only,
  \<^verbatim>\<open>train_network\<close> takes 1, 0 and \<^verbatim>\<open>""\<close> for the other three.
\<close>

theorem main_train_network:
  "main int_of_string supplied =
     (let config_path = (case map_of (rev supplied) ''--config-path'' of
                           None \<Rightarrow> NoneVal | Some raw \<Rightarrow> StrVal raw);
          shuffle = (case map_of (rev supplied) ''--shuffle'' of
                       None \<Rightarrow> Some (IntVal 1) | Some raw \<Rightarrow> map_option IntVal (int_of_string raw));
          train_ind = (case map_of (rev supplied) ''--train-ind'' of
                         None \<Rightarrow> Some (IntVal 0) | Some raw \<Rightarrow> map_option IntVal (int_of_string raw));
          modelprefix = (case map_of (rev supplied) ''--modelprefix'' of
                           None \<Rightarrow> StrVal '''' | Some raw \<Rightarrow> StrVal raw)
      in if fst ` set supplied
              \<subseteq> {''--config-path'', ''--shuffle'', ''--train-ind'', ''--modelprefix''}
         then (case (shuffle, train_ind) of
                 (Some s, Some t) \<Rightarrow>
                   train_network [(''config'', config_path), (''shuffle'', s),
                                  (''trainingsetindex'', t), (''modelprefix'', modelprefix)]
               | _ \<Rightarrow> Inl (SystemExit 2))
         else Inl (SystemExit 2))
   \<and> train_network [(''config'', config), (''shuffle'', shuffle),
                      (''trainingsetindex'', trainingsetindex), (''modelprefix'', modelprefix)]
       = Inr [(''config'', config), (''shuffle'', shuffle),
              (''trainset_index'', trainingsetindex), (''modelprefix'', modelprefix)]
   \<and> train_network [(''config'', config)]
       = Inr [(''config'', config), (''shuffle'', IntVal 1),
              (''trainset_index'', IntVal 0), (''modelprefix'', StrVal '''')]"
proof (intro conjI)
  show "train_network [(''config'', config), (''shuffle'', shuffle),
                      (''trainingsetindex'', trainingsetindex), (''modelprefix'', modelprefix)]
       = Inr [(''config'', config), (''shuffle'', shuffle),
              (''trainset_index'', trainingsetindex), (''modelprefix'', modelprefix)]"
    by (simp add: train_network_def bind_arguments_def train_network_signature_def
        local_variable_def)
  show "train_network [(''config'', config)]
       = Inr [(''config'', config), (''shuffle'', IntVal 1),
              (''trainset_index'', IntVal 0), (''modelprefix'', StrVal '''')]"
    by (simp add: train_network_def bind_arguments_def train_network_signature_def
        local_variable_def)
next
  have opts: "option_string ` set parser
                = {''--config-path'', ''--shuffle'', ''--train-ind'', ''--modelprefix''}"
    by (auto simp: parser_def)
  have dests: "dest ''--config-path'' = ''config_path''" "dest ''--shuffle'' = ''shuffle''"
    "dest ''--train-ind'' = ''train_ind''" "dest ''--modelprefix'' = ''modelprefix''"
    by (simp_all add: dest_def)
  show "main int_of_string supplied =
     (let config_path = (case map_of (rev supplied) ''--config-path'' of
                           None \<Rightarrow> NoneVal | Some raw \<Rightarrow> StrVal raw);
          shuffle = (case map_of (rev supplied) ''--shuffle'' of
                       None \<Rightarrow> Some (IntVal 1) | Some raw \<Rightarrow> map_option IntVal (int_of_string raw));
          train_ind = (case map_of (rev supplied) ''--train-ind'' of
                         None \<Rightarrow> Some (IntVal 0) | Some raw \<Rightarrow> map_option IntVal (int_of_string raw));
          modelprefix = (case map_of (rev supplied) ''--modelprefix'' of
                           None \<Rightarrow> StrVal '''' | Some raw \<Rightarrow> StrVal raw)
      in if fst ` set supplied
              \<subseteq> {''--config-path'', ''--shuffle'', ''--train-ind'', ''--modelprefix''}
         then (case (shuffle, train_ind) of
                 (Some s, Some t) \<Rightarrow>
                   train_network [(''config'', config_path), (''shuffle'', s),
                                  (''trainingsetindex'', t), (''modelprefix'', modelprefix)]
               | _ \<Rightarrow> Inl (SystemExit 2))
         else Inl (SystemExit 2))"
  proof (cases "fst ` set supplied
              \<subseteq> {''--config-path'', ''--shuffle'', ''--train-ind'', ''--modelprefix''}")
    case False
    then have "\<exists>opt \<in> fst ` set supplied. opt \<notin> option_string ` set parser"
      unfolding opts by blast
    with False show ?thesis
      by (simp add: main_def parse_args_def Let_def del: image_insert)
  next
    case True
    then have "\<not> (\<exists>opt \<in> fst ` set supplied. opt \<notin> option_string ` set parser)"
      unfolding opts by blast
    then have p: "parse_args int_of_string parser supplied =
            for_each
             (\<lambda>a. case map_of (rev supplied) (option_string a) of
                    None \<Rightarrow> Inr (dest (option_string a), default_value a)
                  | Some raw \<Rightarrow>
                      map_sum id (Pair (dest (option_string a)))
                        (convert_arg int_of_string (arg_type a) raw))
             parser"
      by (simp add: parse_args_def)
    show ?thesis
      unfolding main_def p
      using True
      by (simp add: parser_def dests convert_arg_def getattr_def Let_def
          train_network_def bind_arguments_def train_network_signature_def local_variable_def
          split: option.splits)
  qed
qed

section \<open>Properties of the calls on a store\<close>

lemma for_state_invariant:
  assumes "for_state body xs s = Inr s'" and "I s"
    and "\<And>x s s'. x \<in> set xs \<Longrightarrow> I s \<Longrightarrow> body x s = Inr s' \<Longrightarrow> I s'"
  shows "I s'"
  using assms
proof (induction xs arbitrary: s)
  case Nil
  then show ?case by simp
next
  case (Cons x xs)
  from Cons.prems(1) obtain s1 where b: "body x s = Inr s1" and r: "for_state body xs s1 = Inr s'"
    by (cases "body x s") auto
  have "I s1" using Cons.prems(3) [of x s s1] Cons.prems(2) b by simp
  with r Cons.IH [of s1] Cons.prems(3) show ?case by auto
qed

lemma frame_refl [simp]: "frame n0 h h"
  by (simp add: frame_def)

lemma frame_trans: "frame n0 h h1 \<Longrightarrow> frame n0 h1 h2 \<Longrightarrow> frame n0 h h2"
  by (simp add: frame_def)

lemma region_mono: "length h \<le> length h' \<Longrightarrow> region n0 R h \<subseteq> region n0 R h'"
  by (auto simp: region_def)

lemma fresh_mono: "fresh n0 R h v \<Longrightarrow> length h \<le> length h' \<Longrightarrow> fresh n0 R h' v"
  using region_mono [of h h' n0 R] by (auto simp: fresh_def split: hval.splits)

lemma fresh_weaken: "fresh n0 {} h v \<Longrightarrow> fresh n0 R h v"
  by (auto simp: fresh_def region_def split: hval.splits)

lemma memo_ok_mono: "memo_ok n0 h memo \<Longrightarrow> length h \<le> length h' \<Longrightarrow> memo_ok n0 h' memo"
  by (fastforce simp: memo_ok_def)

lemma snd_set_update: "snd ` set (AList.update k v es) \<subseteq> insert v (snd ` set es)"
  by (induction es) auto

lemma refs_of_dict_update:
  "refs_of (ODict (AList.update k v es)) \<subseteq> refs_of (ODict es) \<union> {b. v = HRef b}"
  using snd_set_update [of k v es] by (auto simp: refs_of_def)

lemma refs_of_list_update:
  "refs_of (OList (xs[j := v])) \<subseteq> refs_of (OList xs) \<union> {b. v = HRef b}"
  using set_update_subset_insert [of xs j v] by (auto simp: refs_of_def)

lemma refs_of_list_append:
  "refs_of (OList (xs @ [v])) = refs_of (OList xs) \<union> {b. v = HRef b}"
  by (auto simp: refs_of_def)

text \<open>A write to an object of the new region, of a value of the region, keeps the region
  closed and the old objects as they were.\<close>

lemma closed_write:
  assumes c: "closed n0 R h" and a: "n0 \<le> a" "a < length h"
    and v: "fresh n0 R h v"
    and r: "refs_of obj \<subseteq> refs_of (h ! a) \<union> {b. v = HRef b}"
  shows "closed n0 R (h[a := obj]) \<and> frame n0 h (h[a := obj])"
proof -
  have reg: "region n0 R (h[a := obj]) = region n0 R h" by (simp add: region_def)
  have ain: "a \<in> region n0 R h" using a by (simp add: region_def)
  have "refs_of ((h[a := obj]) ! b) \<subseteq> region n0 R h" if "b \<in> region n0 R h" for b
  proof (cases "b = a")
    case True
    have "refs_of (h ! a) \<subseteq> region n0 R h" using c ain by (simp add: closed_def)
    moreover have "{b. v = HRef b} \<subseteq> region n0 R h" using v by (auto simp: fresh_def)
    ultimately show ?thesis using r a True by auto
  next
    case False
    with c that show ?thesis by (simp add: closed_def)
  qed
  with c reg a show ?thesis by (simp add: closed_def frame_def)
qed

lemma closed_set_item:
  assumes "closed n0 R h" "n0 \<le> a" "a < length h" "fresh n0 R h v" "set_item a i v h = Inr h'"
  shows "closed n0 R h' \<and> frame n0 h h' \<and> length h' = length h"
proof (cases "h ! a")
  case (OList items)
  with assms(5) obtain j where i: "i = Index j" "j < length items" and h': "h' = h[a := OList (items[j := v])]"
    by (cases i) (auto simp: set_item_def split: if_splits)
  have "refs_of (OList (items[j := v])) \<subseteq> refs_of (h ! a) \<union> {b. v = HRef b}"
    using refs_of_list_update [of items j v] OList by simp
  from closed_write [OF assms(1-4) this] h' show ?thesis by simp
next
  case (ODict entries)
  with assms(5) obtain k where i: "i = Key k" and h': "h' = h[a := ODict (AList.update k v entries)]"
    by (cases i) (auto simp: set_item_def)
  have "refs_of (ODict (AList.update k v entries)) \<subseteq> refs_of (h ! a) \<union> {b. v = HRef b}"
    using refs_of_dict_update [of k v entries] ODict by simp
  from closed_write [OF assms(1-4) this] h' show ?thesis by simp
qed

lemma closed_list_append:
  assumes "closed n0 R h" "n0 \<le> a" "a < length h" "fresh n0 R h v" "list_append a v h = Inr h'"
  shows "closed n0 R h' \<and> frame n0 h h' \<and> length h' = length h"
proof (cases "h ! a")
  case (OList items)
  with assms(5) have h': "h' = h[a := OList (items @ [v])]"
    by (simp add: list_append_def)
  have "refs_of (OList (items @ [v])) \<subseteq> refs_of (h ! a) \<union> {b. v = HRef b}"
    using refs_of_list_append [of items v] OList by simp
  from closed_write [OF assms(1-4) this] h' show ?thesis by simp
next
  case (ODict entries)
  with assms(5) show ?thesis by (simp add: list_append_def)
qed

lemma closed_alloc:
  assumes c: "closed n0 R h" and r: "refs_of obj \<subseteq> region n0 R (h @ [obj])"
  shows "closed n0 R (h @ [obj]) \<and> frame n0 h (h @ [obj])"
proof -
  have sub: "region n0 R h \<subseteq> region n0 R (h @ [obj])"
    by (rule region_mono) simp
  have "refs_of ((h @ [obj]) ! b) \<subseteq> region n0 R (h @ [obj])" if "b \<in> region n0 R (h @ [obj])" for b
  proof (cases "b = length h")
    case True
    with r show ?thesis by simp
  next
    case False
    with that c have b: "b \<in> region n0 R h" "b < length h"
      by (auto simp: region_def closed_def)
    with c have "refs_of (h ! b) \<subseteq> region n0 R h" by (simp add: closed_def)
    with sub b show ?thesis by (auto simp: nth_append)
  qed
  with c show ?thesis by (auto simp: closed_def frame_def)
qed

lemma map_sum_id_Inr: "map_sum id f r = Inr z \<Longrightarrow> \<exists>y. r = Inr y \<and> z = f y"
  by (cases r) auto

lemma deepcopy_closed:
  assumes "deepcopy n h memo x = Inr ((h', memo'), x')"
    and "closed n0 R h" and "memo_ok n0 h memo"
  shows "closed n0 R h' \<and> memo_ok n0 h' memo' \<and> frame n0 h h' \<and> fresh n0 {} h' x'"
  using assms
proof (induction n arbitrary: h memo x h' memo' x')
  case 0
  then show ?case by simp
next
  case (Suc n)
  note IH = Suc.IH
  show ?case
  proof (cases x)
    case (HRef a)
    show ?thesis
    proof (cases "memo a")
      case (Some y)
      with HRef Suc.prems show ?thesis
        by (auto simp: fresh_def region_def memo_ok_def)
    next
      case None
      let ?y = "length h"
      have n0: "n0 \<le> length h" using Suc.prems(2) by (simp add: closed_def)
      define I where "I = (\<lambda>s :: ('a, 'b) heap \<times> (nat \<rightharpoonup> nat).
          closed n0 R (fst s) \<and> memo_ok n0 (fst s) (snd s) \<and> frame n0 h (fst s)
          \<and> ?y < length (fst s))"
      have init: "I (h @ [obj], memo(a \<mapsto> ?y))" if "refs_of obj = {}" for obj
      proof -
        have "closed n0 R (h @ [obj]) \<and> frame n0 h (h @ [obj])"
          using Suc.prems(2) that by (intro closed_alloc) simp_all
        moreover have "memo_ok n0 (h @ [obj]) (memo(a \<mapsto> ?y))"
          using Suc.prems(3) n0 by (fastforce simp: memo_ok_def split: if_splits)
        ultimately show ?thesis by (simp add: I_def)
      qed
      have step: "I (h3, m2)"
        if "I (h1, m1)" and d: "deepcopy n h1 m1 v = Inr ((h2, m2), v')"
          and w: "closed n0 R h2 \<Longrightarrow> fresh n0 R h2 v' \<Longrightarrow> ?y < length h2 \<Longrightarrow>
                    closed n0 R h3 \<and> frame n0 h2 h3 \<and> length h3 = length h2"
        for h1 m1 v h2 m2 v' h3
      proof -
        from that(1) have i: "closed n0 R h1" "memo_ok n0 h1 m1" "frame n0 h h1" "?y < length h1"
          by (simp_all add: I_def)
        from IH [OF d i(1,2)]
        have r: "closed n0 R h2" "memo_ok n0 h2 m2" "frame n0 h1 h2" "fresh n0 {} h2 v'"
          by simp_all
        have len: "?y < length h2" using i(4) r(3) by (simp add: frame_def)
        from w [OF r(1) fresh_weaken [OF r(4)] len]
        have w': "closed n0 R h3" "frame n0 h2 h3" "length h3 = length h2" by simp_all
        have "memo_ok n0 h3 m2" using r(2) w'(3) by (simp add: memo_ok_def)
        moreover have "frame n0 h h3"
          using i(3) r(3) w'(2) by (blast intro: frame_trans)
        ultimately show ?thesis using w' len by (simp add: I_def)
      qed
      have final: ?thesis if "I (h', memo')" and "x' = HRef ?y"
        using that n0 by (auto simp: I_def fresh_def region_def)
      show ?thesis
      proof (cases "h ! a")
        case (OList items)
        let ?body = "\<lambda>item (h, memo).
                            case deepcopy n h memo item of
                              Inl e \<Rightarrow> Inl e
                            | Inr ((h, memo), item') \<Rightarrow>
                                map_sum id (\<lambda>h. (h, memo)) (list_append ?y item' h)"
        from Suc.prems(1) HRef None OList
        have run: "for_state ?body items (h @ [OList []], memo(a \<mapsto> ?y)) = Inr (h', memo')"
          and x': "x' = HRef ?y"
          by (auto simp: Let_def dest!: map_sum_id_Inr)
        have "I (h', memo')"
        proof (rule for_state_invariant [OF run, of I])
          show "I (h @ [OList []], memo(a \<mapsto> ?y))"
            by (rule init) (simp add: refs_of_def)
        next
          fix v s s'
          assume "I s" and b: "?body v s = Inr s'"
          obtain h1 m1 where s: "s = (h1, m1)" by (cases s)
          from b s obtain h2 m2 v' h3 where
            d: "deepcopy n h1 m1 v = Inr ((h2, m2), v')"
            and a: "list_append ?y v' h2 = Inr h3" and s': "s' = (h3, m2)"
            by (auto split: sum.splits dest!: map_sum_id_Inr)
          show "I s'"
            unfolding s'
          proof (rule step [OF _ d])
            show "I (h1, m1)" using \<open>I s\<close> s by simp
          next
            assume "closed n0 R h2" "fresh n0 R h2 v'" "?y < length h2"
            then show "closed n0 R h3 \<and> frame n0 h2 h3 \<and> length h3 = length h2"
              using a n0 by (intro closed_list_append [where a = ?y and v = v']) simp_all
          qed
        qed
        then show ?thesis using x' by (rule final)
      next
        case (ODict entries)
        let ?body = "\<lambda>(key, value) (h, memo).
                            case deepcopy n h memo value of
                              Inl e \<Rightarrow> Inl e
                            | Inr ((h, memo), value') \<Rightarrow>
                                map_sum id (\<lambda>h. (h, memo)) (set_item ?y (Key key) value' h)"
        from Suc.prems(1) HRef None ODict
        have run: "for_state ?body entries (h @ [ODict []], memo(a \<mapsto> ?y)) = Inr (h', memo')"
          and x': "x' = HRef ?y"
          by (auto simp: Let_def dest!: map_sum_id_Inr)
        have "I (h', memo')"
        proof (rule for_state_invariant [OF run, of I])
          show "I (h @ [ODict []], memo(a \<mapsto> ?y))"
            by (rule init) (simp add: refs_of_def)
        next
          fix kv s s'
          assume "I s" and b: "?body kv s = Inr s'"
          obtain h1 m1 where s: "s = (h1, m1)" by (cases s)
          obtain k v where kv: "kv = (k, v)" by (cases kv)
          from b s kv obtain h2 m2 v' h3 where
            d: "deepcopy n h1 m1 v = Inr ((h2, m2), v')"
            and a: "set_item ?y (Key k) v' h2 = Inr h3" and s': "s' = (h3, m2)"
            by (auto split: sum.splits dest!: map_sum_id_Inr)
          show "I s'"
            unfolding s'
          proof (rule step [OF _ d])
            show "I (h1, m1)" using \<open>I s\<close> s by simp
          next
            assume "closed n0 R h2" "fresh n0 R h2 v'" "?y < length h2"
            then show "closed n0 R h3 \<and> frame n0 h2 h3 \<and> length h3 = length h2"
              using a n0 by (intro closed_set_item [where a = ?y and v = v']) simp_all
          qed
        qed
        then show ?thesis using x' by (rule final)
      qed
    qed
  qed (use Suc.prems in \<open>auto simp: fresh_def\<close>)
qed

lemma get_item_refs: "get_item h a i = Inr (HRef b) \<Longrightarrow> b \<in> refs_of (h ! a)"
proof (cases "h ! a")
  case (OList items)
  assume "get_item h a i = Inr (HRef b)"
  with OList show ?thesis
    by (cases i) (auto simp: get_item_def refs_of_def in_set_conv_nth split: if_splits)
next
  case (ODict entries)
  assume "get_item h a i = Inr (HRef b)"
  with ODict obtain k where "map_of entries k = Some (HRef b)"
    by (cases i) (auto simp: get_item_def split: option.splits)
  then have "(k, HRef b) \<in> set entries" by (rule map_of_SomeD)
  then have "HRef b \<in> snd ` set entries" by force
  with ODict show ?thesis by (simp add: refs_of_def)
qed

lemma get_item_fresh:
  assumes "get_item h a i = Inr v" "closed n0 R h" "a \<in> region n0 R h"
  shows "fresh n0 R h v"
proof (cases v)
  case (HRef b)
  with assms(1) have "b \<in> refs_of (h ! a)" by (simp add: get_item_refs)
  with assms(2,3) HRef show ?thesis by (auto simp: closed_def fresh_def)
qed (simp_all add: fresh_def)

lemma is_dict_ref: "is_dict h v \<Longrightarrow> \<exists>b. v = HRef b"
  by (cases v) (simp_all add: is_dict_def)

lemma memo_ok_empty [simp]: "memo_ok n0 h Map.empty"
  by (simp add: memo_ok_def)

lemma update_config_st_closed:
  assumes "update_config_st n h config updates copy_original = Inr (h', r)"
    and "closed n0 {} h"
    and "\<not> copy_original \<Longrightarrow> fresh n0 {} h config"
  shows "closed n0 {} h' \<and> frame n0 h h' \<and> fresh n0 {} h' r \<and> (\<exists>c. r = HRef c)"
  using assms
proof (induction n arbitrary: h config updates copy_original h' r)
  case 0
  then show ?case by simp
next
  case (Suc n)
  from Suc.prems(1) obtain h1 m1 config1 where
    start: "(if copy_original then deepcopy n h Map.empty config
             else Inr ((h, Map.empty), config)) = Inr ((h1, m1), config1)"
    by (auto split: sum.splits)
  have s: "closed n0 {} h1" "frame n0 h h1" "fresh n0 {} h1 config1"
  proof -
    show "closed n0 {} h1" "frame n0 h h1" "fresh n0 {} h1 config1"
      using start Suc.prems(2,3) deepcopy_closed [of n h Map.empty config h1 m1 config1 n0 "{}"]
      by (auto split: if_splits)
  qed
  from Suc.prems(1) start obtain c u items where
    cu: "config1 = HRef c" "updates = HRef u" "h1 ! u = ODict items"
    by (auto split: sum.splits hval.splits object.splits)
  let ?body = "\<lambda>(k, v) h.
                  if (case get_item h c (Key k) of
                        Inl e \<Rightarrow> False
                      | Inr old \<Rightarrow> is_dict h old \<and> is_dict h v)
                  then
                    (case get_item h c (Key k) of
                       Inl e \<Rightarrow> Inl e
                     | Inr old \<Rightarrow>
                         (case update_config_st n h old v False of
                            Inl e \<Rightarrow> Inl e
                          | Inr (h, merged) \<Rightarrow> set_item c (Key k) merged h))
                  else
                    (case deepcopy n h Map.empty v of
                       Inl e \<Rightarrow> Inl e
                     | Inr ((h, memo), v') \<Rightarrow> set_item c (Key k) v' h)"
  from Suc.prems(1) start cu
  have run: "for_state ?body items h1 = Inr h'" and r: "r = HRef c"
    by (auto dest!: map_sum_id_Inr)
  have c: "n0 \<le> c" "c < length h1"
    using s(3) cu by (simp_all add: fresh_def region_def)
  define I where "I = (\<lambda>h2 :: ('a, 'b) heap. closed n0 {} h2 \<and> frame n0 h h2 \<and> c < length h2)"
  have "I h'"
  proof (rule for_state_invariant [OF run, of I])
    show "I h1" using s c by (simp add: I_def)
  next
    fix kv h2 h4
    assume "I h2" and b: "?body kv h2 = Inr h4"
    then have i: "closed n0 {} h2" "frame n0 h h2" "c < length h2"
      by (simp_all add: I_def)
    obtain k v where kv: "kv = (k, v)" by (cases kv)
    have "\<exists>h3 w. closed n0 {} h3 \<and> frame n0 h2 h3 \<and> fresh n0 {} h3 w
             \<and> set_item c (Key k) w h3 = Inr h4"
    proof (cases "case get_item h2 c (Key k) of
                    Inl e \<Rightarrow> False
                  | Inr old \<Rightarrow> is_dict h2 old \<and> is_dict h2 v")
      case True
      then obtain old where old: "get_item h2 c (Key k) = Inr old" "is_dict h2 old"
        by (auto split: sum.splits)
      with b kv True obtain h3 merged where
        u: "update_config_st n h2 old v False = Inr (h3, merged)"
        and w: "set_item c (Key k) merged h3 = Inr h4"
        by (auto split: sum.splits)
      have "fresh n0 {} h2 old"
        using old(1) i(1) c(1) i(3) by (intro get_item_fresh [where a = c]) (simp_all add: region_def)
      with Suc.IH [OF u i(1)] w show ?thesis by blast
    next
      case False
      with b kv obtain h3 m3 v' where
        d: "deepcopy n h2 Map.empty v = Inr ((h3, m3), v')"
        and w: "set_item c (Key k) v' h3 = Inr h4"
        by (auto split: sum.splits)
      from deepcopy_closed [OF d i(1)] w show ?thesis by auto
    qed
    then obtain h3 w where
      3: "closed n0 {} h3" "frame n0 h2 h3" "fresh n0 {} h3 w" "set_item c (Key k) w h3 = Inr h4"
      by blast
    have c3: "c < length h3" using i(3) 3(2) by (simp add: frame_def)
    from closed_set_item [OF 3(1) c(1) c3 3(3,4)]
    have "closed n0 {} h4" "frame n0 h3 h4" "length h4 = length h3" by simp_all
    with i(2) 3(2) c3 show "I h4"
      by (auto simp: I_def intro: frame_trans)
  qed
  with r c show ?case by (auto simp: I_def fresh_def region_def)
qed

lemma py_add_st_scalar:
  "py_add_st fl h v n = Inr (h', r) \<Longrightarrow> h' = h \<and> (\<forall>b. r \<noteq> HRef b)"
  by (cases v) (auto split: option.splits)

lemma get_updated_value_st_closed:
  assumes g: "get_updated_value_st fl uv h s = Inr (h', r)"
    and c: "closed n0 R h" and uv: "uv_refs uv \<subseteq> R"
  shows "closed n0 R h' \<and> frame n0 h h' \<and> fresh n0 R h' r"
proof -
  from g obtain name rest v where
    p: "var_parts s = name # rest" and v: "map_of uv name = Some v"
    by (auto simp: get_updated_value_st_def split: list.splits option.splits)
  from v have "(name, v) \<in> set uv" by (rule map_of_SomeD)
  then have "v \<in> snd ` set uv" by force
  then have "\<And>u. v = HRef u \<Longrightarrow> u \<in> uv_refs uv"
    by (simp add: uv_refs_def)
  with uv have vR: "fresh n0 R h v"
    by (cases v) (auto simp: fresh_def region_def)
  have g': "(case rest of
               [] \<Rightarrow> Inr (h, v)
             | [operator, factor] \<Rightarrow>
                 if \<not> isdigit factor then Inl (ValueError (FactorNotInteger s))
                 else (case py_int factor of
                         Inl e \<Rightarrow> Inl e
                       | Inr n \<Rightarrow>
                           if operator = ''+'' then py_add_st fl h v n
                           else if operator = ''x'' then py_mul_st fl h v n
                           else Inl (ValueError (UnknownOperator s)))
             | _ \<Rightarrow> Inl (ValueError (CannotParse s))) = Inr (h', r)"
    using g p v
    by (cases v; hypsubst_thin) (simp_all add: get_updated_value_st_def)
  have "(h' = h \<and> r = v) \<or> (\<exists>k. py_add_st fl h v k = Inr (h', r))
          \<or> (\<exists>k. py_mul_st fl h v k = Inr (h', r))"
  proof (cases rest)
    case Nil
    with g' show ?thesis by simp
  next
    case (Cons operator r1)
    show ?thesis
    proof (cases r1)
      case Nil
      with g' Cons show ?thesis by simp
    next
      case c2: (Cons factor r2)
      show ?thesis
      proof (cases r2)
        case Nil
        with g' Cons c2 show ?thesis
          by (cases "py_int factor") (auto split: if_splits)
      next
        case c3: (Cons x r3)
        with g' Cons c2 show ?thesis by simp
      qed
    qed
  qed
  then consider
      (bare) "h' = h" "r = v"
    | (add) k where "py_add_st fl h v k = Inr (h', r)"
    | (mul) k where "py_mul_st fl h v k = Inr (h', r)"
    by blast
  then show ?thesis
  proof cases
    case bare
    with c vR show ?thesis by simp
  next
    case add
    then have "h' = h" "\<forall>b. r \<noteq> HRef b" using py_add_st_scalar by blast+
    with c show ?thesis by (cases r) (simp_all add: fresh_def)
  next
    case mul
    show ?thesis
    proof (cases v)
      case (HRef u)
      with mul obtain items where
        u: "h ! u = OList items"
        and h': "h' = h @ [OList (concat (replicate (nat k) items))]" and r: "r = HRef (length h)"
        by (auto split: object.splits)
      have "u \<in> region n0 R h" using vR HRef by (simp add: fresh_def)
      with c have "refs_of (h ! u) \<subseteq> region n0 R h" by (simp add: closed_def)
      with u have "refs_of (OList items) \<subseteq> region n0 R h" by simp
      moreover have "refs_of (OList (concat (replicate (nat k) items))) \<subseteq> refs_of (OList items)"
        by (auto simp: refs_of_def)
      ultimately have "refs_of (OList (concat (replicate (nat k) items)))
                         \<subseteq> region n0 R (h @ [OList (concat (replicate (nat k) items))])"
        using region_mono [of h "h @ [OList (concat (replicate (nat k) items))]" n0 R] by auto
      from closed_alloc [OF c this] h' r c show ?thesis
        by (auto simp: fresh_def region_def closed_def)
    qed (use mul c in \<open>auto simp: fresh_def split: option.splits\<close>)
  qed
qed

lemma replace_default_values_st_closed:
  assumes "replace_default_values_st n fl uv h config = Inr (h', r)"
    and "closed n0 R h" and "uv_refs uv \<subseteq> R"
  shows "closed n0 R h' \<and> frame n0 h h' \<and> fresh n0 {} h' r \<and> (\<exists>c. r = HRef c)"
  using assms
proof (induction n arbitrary: h config h' r)
  case 0
  then show ?case by simp
next
  case (Suc n)
  from Suc.prems(1) obtain h1 m1 config1 where
    start: "deepcopy n h Map.empty config = Inr ((h1, m1), config1)"
    by (auto split: sum.splits)
  from deepcopy_closed [OF start Suc.prems(2)]
  have s: "closed n0 R h1" "frame n0 h h1" "fresh n0 {} h1 config1" by simp_all
  from Suc.prems(1) start obtain c where cu: "config1 = HRef c"
    by (auto split: hval.splits)
  let ?body = "\<lambda>k h.
                 case get_item h c k of
                   Inl e \<Rightarrow> Inl e
                 | Inr (HRef a) \<Rightarrow>
                     (case replace_default_values_st n fl uv h (HRef a) of
                        Inl e \<Rightarrow> Inl e
                      | Inr (h, replaced) \<Rightarrow> set_item c k replaced h)
                 | Inr (HStr s) \<Rightarrow>
                     if is_placeholder uv s
                     then (case get_updated_value_st fl uv h s of
                             Inl e \<Rightarrow> Inl e
                           | Inr (h, updated) \<Rightarrow> set_item c k updated h)
                     else Inr h
                 | Inr _ \<Rightarrow> Inr h"
  from Suc.prems(1) start cu
  have run: "for_state ?body (keys_of (h1 ! c)) h1 = Inr h'" and r: "r = HRef c"
    by (auto dest!: map_sum_id_Inr)
  have c: "n0 \<le> c" "c < length h1"
    using s(3) cu by (simp_all add: fresh_def region_def)
  define I where "I = (\<lambda>h2 :: ('a, 'b) heap. closed n0 R h2 \<and> frame n0 h h2 \<and> c < length h2)"
  have "I h'"
  proof (rule for_state_invariant [OF run, of I])
    show "I h1" using s c by (simp add: I_def)
  next
    fix k h2 h4
    assume "I h2" and b: "?body k h2 = Inr h4"
    then have i: "closed n0 R h2" "frame n0 h h2" "c < length h2"
      by (simp_all add: I_def)
    from b obtain v where v: "get_item h2 c k = Inr v"
      by (auto split: sum.splits)
    have "h4 = h2 \<or> (\<exists>h3 w. closed n0 R h3 \<and> frame n0 h2 h3 \<and> fresh n0 R h3 w
             \<and> set_item c k w h3 = Inr h4)"
    proof (cases v)
      case (HRef a)
      with b v obtain h3 replaced where
        u: "replace_default_values_st n fl uv h2 (HRef a) = Inr (h3, replaced)"
        and w: "set_item c k replaced h3 = Inr h4"
        by (auto split: sum.splits)
      from Suc.IH [OF u i(1) Suc.prems(3)] w show ?thesis
        by (blast intro: fresh_weaken)
    next
      case (HStr s)
      show ?thesis
      proof (cases "is_placeholder uv s")
        case True
        with b v HStr obtain h3 updated where
          u: "get_updated_value_st fl uv h2 s = Inr (h3, updated)"
          and w: "set_item c k updated h3 = Inr h4"
          by (auto split: sum.splits)
        from get_updated_value_st_closed [OF u i(1) Suc.prems(3)] w show ?thesis by blast
      next
        case False
        with b v HStr show ?thesis by simp
      qed
    qed (use b v in auto)
    then show "I h4"
    proof
      assume "h4 = h2"
      with \<open>I h2\<close> show ?thesis by simp
    next
      assume "\<exists>h3 w. closed n0 R h3 \<and> frame n0 h2 h3 \<and> fresh n0 R h3 w
                \<and> set_item c k w h3 = Inr h4"
      then obtain h3 w where
        3: "closed n0 R h3" "frame n0 h2 h3" "fresh n0 R h3 w" "set_item c k w h3 = Inr h4"
        by blast
      have c3: "c < length h3" using i(3) 3(2) by (simp add: frame_def)
      from closed_set_item [OF 3(1) c(1) c3 3(3,4)]
      have "closed n0 R h4" "frame n0 h3 h4" "length h4 = length h3" by simp_all
      with i(2) 3(2) c3 show "I h4"
        by (auto simp: I_def intro: frame_trans)
    qed
  qed
  with r c show ?case by (auto simp: I_def fresh_def region_def)
qed

lemma closed_reaches:
  "reaches h a b \<Longrightarrow> closed n0 R h \<Longrightarrow> a \<in> region n0 R h \<Longrightarrow> b \<in> region n0 R h"
proof (induction rule: reaches.induct)
  case (here a)
  then show ?case by simp
next
  case (step a b c)
  then have "b \<in> region n0 R h" by simp
  with step.prems(1) have "refs_of (h ! b) \<subseteq> region n0 R h" by (simp add: closed_def)
  with step.hyps(2) show ?case by blast
qed

lemma reaches_leaf: "reaches h a b \<Longrightarrow> refs_of (h ! a) = {} \<Longrightarrow> b = a"
  by (induction rule: reaches.induct) auto

lemma frame_take: "frame (length h) h h' \<Longrightarrow> take (length h) h' = h"
  by (simp add: frame_def)

lemma closed_start: "closed (length h) {} h"
  by (simp add: closed_def region_def)

lemma reaches_wf: "reaches h u b \<Longrightarrow> heap_wf h \<Longrightarrow> u < length h \<Longrightarrow> b < length h"
  by (induction rule: reaches.induct) (auto simp: heap_wf_def)

lemma closed_reachable:
  assumes "heap_wf h" and "\<forall>u\<in>uv_refs uv. u < length h"
  shows "closed (length h) {b. \<exists>u\<in>uv_refs uv. reaches h u b} h"
proof -
  let ?R = "{b. \<exists>u\<in>uv_refs uv. reaches h u b}"
  have "\<forall>b\<in>?R. b < length h"
    using assms reaches_wf by blast
  moreover have "region (length h) ?R h = ?R" by (auto simp: region_def)
  moreover have "refs_of (h ! a) \<subseteq> ?R" if "a \<in> ?R" for a
    using that by (auto intro: reaches.step)
  ultimately show ?thesis by (simp add: closed_def)
qed

text \<open>A call that leaves the old objects as they were leaves the values of old
  references as they were.\<close>

lemma value_of_frame:
  assumes "heap_wf h" and "take (length h) h' = h"
  shows "(\<And>a. v = HRef a \<Longrightarrow> a < length h) \<Longrightarrow> value_of m h' v = value_of m h v"
proof (induction m arbitrary: v)
  case 0
  show ?case by simp
next
  case (Suc m)
  show ?case
  proof (cases v)
    case (HRef a)
    with Suc.prems have a: "a < length h" by simp
    have same: "h' ! a = h ! a"
      using a assms(2) by (metis nth_take)
    have sub: "value_of m h' w = value_of m h w" if "\<And>b. w = HRef b \<Longrightarrow> b \<in> refs_of (h ! a)" for w
    proof (rule Suc.IH)
      fix b assume "w = HRef b"
      with that have "b \<in> refs_of (h ! a)" by simp
      with assms(1) a show "b < length h" by (auto simp: heap_wf_def)
    qed
    show ?thesis
    proof (cases "h ! a")
      case (OList items)
      have "map (value_of m h') items = map (value_of m h) items"
        using OList by (intro map_cong refl sub) (auto simp: refs_of_def)
      then have "those (map (value_of m h') items) = those (map (value_of m h) items)"
        by (rule arg_cong)
      with HRef OList same show ?thesis by simp
    next
      case (ODict entries)
      have "map (\<lambda>(k, v). map_option (Pair k) (value_of m h' v)) entries
              = map (\<lambda>(k, v). map_option (Pair k) (value_of m h v)) entries"
      proof (intro map_cong refl)
        fix kv assume kv: "kv \<in> set entries"
        obtain k w where "kv = (k, w)" by (cases kv)
        moreover from this kv have "value_of m h' w = value_of m h w"
          using ODict by (intro sub) (force simp: refs_of_def)
        ultimately show "(case kv of (k, v) \<Rightarrow> map_option (Pair k) (value_of m h' v))
                           = (case kv of (k, v) \<Rightarrow> map_option (Pair k) (value_of m h v))"
          by simp
      qed
      then have "those (map (\<lambda>(k, v). map_option (Pair k) (value_of m h' v)) entries)
              = those (map (\<lambda>(k, v). map_option (Pair k) (value_of m h v)) entries)"
        by (rule arg_cong)
      with HRef ODict same show ?thesis by simp
    qed
  qed simp_all
qed

text \<open>
  The calls on the store and the functions on values, side by side: on the examples, the
  value that the result stands for in the new store is the result of the function on the
  values that the arguments stand for.
\<close>

lemma update_config_models_agree:
  "(case (value_of 5 tree_heap (HRef 0), value_of 5 tree_heap (HRef 2),
          update_config_st 5 tree_heap (HRef 0) (HRef 2) True) of
      (Some (PDict config), Some (PDict updates), Inr (h', r)) \<Rightarrow>
         value_of 5 h' r = Some (PDict (update_config config updates))
    | _ \<Rightarrow> False)"
  by code_simp

lemma replace_default_values_models_agree:
  "(case (value_of 5 graph_heap (HRef 0), value_of 5 graph_heap (HRef 1),
          replace_default_values_st 5 example_float_ops graph_values graph_heap (HRef 0)) of
      (Some config, Some paf_graph, Inr (h', r)) \<Rightarrow>
         map_option Inr (value_of 5 h' r)
           = Some (replace_default_values example_float_ops
                     (updated_values (PInt 17) PNone PNone [(''paf_graph'', paf_graph)]) config)
    | _ \<Rightarrow> False)"
  by code_simp

text \<open>
  C5 (as amended). In a store without dangling references, \<^verbatim>\<open>update_config\<close> with
  \<^verbatim>\<open>copy_original=True\<close>, and \<^verbatim>\<open>replace_default_values\<close>, leave every object of the
  store as it was, so that the config stands after the call for the value it stood for
  before. The result of \<^verbatim>\<open>update_config\<close> is a new object that reaches new objects
  only; the result of \<^verbatim>\<open>replace_default_values\<close> is a new object, and an object that
  it reaches is new or is reached by a supplied placeholder value.
\<close>

theorem copies_leave_config:
  assumes "heap_wf h" and "\<forall>a. config = HRef a \<longrightarrow> a < length h"
  shows "(update_config_st n h config updates True = Inr (h', r) \<longrightarrow>
            take (length h) h' = h
            \<and> value_of m h' config = value_of m h config
            \<and> (\<exists>c. r = HRef c \<and> (\<forall>b. reaches h' c b \<longrightarrow> length h \<le> b \<and> b < length h')))
       \<and> (replace_default_values_st n fl uv h config = Inr (h'', r')
              \<and> (\<forall>u\<in>uv_refs uv. u < length h) \<longrightarrow>
            take (length h) h'' = h
            \<and> value_of m h'' config = value_of m h config
            \<and> (\<exists>c. r' = HRef c
                  \<and> (\<forall>b. reaches h'' c b \<longrightarrow>
                        (length h \<le> b \<and> b < length h'')
                        \<or> (\<exists>u\<in>uv_refs uv. reaches h u b))))"
proof (intro conjI impI)
  assume u: "update_config_st n h config updates True = Inr (h', r)"
  from update_config_st_closed [OF u closed_start]
  have c: "closed (length h) {} h'" and f: "frame (length h) h h'"
    and r: "fresh (length h) {} h' r" "\<exists>c. r = HRef c"
    by simp_all
  from f show t: "take (length h) h' = h" by (rule frame_take)
  show "value_of m h' config = value_of m h config"
    using assms(1) t assms(2) by (intro value_of_frame) auto
  from r obtain c where rc: "r = HRef c" "c \<in> region (length h) {} h'"
    by (auto simp: fresh_def)
  have "length h \<le> b \<and> b < length h'" if "reaches h' c b" for b
    using closed_reaches [OF that c rc(2)] by (simp add: region_def)
  with rc show "\<exists>c. r = HRef c \<and> (\<forall>b. reaches h' c b \<longrightarrow> length h \<le> b \<and> b < length h')"
    by blast
next
  assume a: "replace_default_values_st n fl uv h config = Inr (h'', r')
        \<and> (\<forall>u\<in>uv_refs uv. u < length h)"
  let ?R = "{b. \<exists>u\<in>uv_refs uv. reaches h u b}"
  from a assms(1) have cl: "closed (length h) ?R h" by (intro closed_reachable) simp_all
  have sub: "uv_refs uv \<subseteq> ?R" by (auto intro: reaches.here)
  from a have run: "replace_default_values_st n fl uv h config = Inr (h'', r')" by simp
  from replace_default_values_st_closed [OF run cl sub]
  have c: "closed (length h) ?R h''" and f: "frame (length h) h h''"
    and r: "fresh (length h) {} h'' r'" "\<exists>c. r' = HRef c"
    by simp_all
  from f show t: "take (length h) h'' = h" by (rule frame_take)
  show "value_of m h'' config = value_of m h config"
    using assms(1) t assms(2) by (intro value_of_frame) auto
  from r obtain c where rc: "r' = HRef c" "c \<in> region (length h) ?R h''"
    by (auto simp: fresh_def region_def)
  have "(length h \<le> b \<and> b < length h'') \<or> (\<exists>u\<in>uv_refs uv. reaches h u b)"
    if "reaches h'' c b" for b
    using closed_reaches [OF that c rc(2)] by (auto simp: region_def)
  with rc show "\<exists>c. r' = HRef c
            \<and> (\<forall>b. reaches h'' c b \<longrightarrow>
                  (length h \<le> b \<and> b < length h'') \<or> (\<exists>u\<in>uv_refs uv. reaches h u b))"
    by blast
qed

lemma update_config_st_shared:
  "update_config_st 5 shared_heap (HRef 0) (HRef 2) True
     = Inr (shared_heap @
              [ODict [(''backbone'', HRef 5), (''head'', HRef 5)], ODict [(''lr'', HInt 2)]],
            HRef 4)"
  by code_simp

lemma replace_default_values_st_graph:
  "replace_default_values_st 5 example_float_ops graph_values graph_heap (HRef 0)
     = Inr (graph_heap @
              [ODict [(''graph'', HRef 6), (''edges'', HRef 1), (''channels'', HRef 7)],
               OList [HInt 0, HInt 1],
               OList [HStr ''num_bodyparts x 2'', HStr ''paf_graph x 2''],
               OList [HInt 0, HInt 1],
               OList [HInt 34, HRef 8],
               OList [HInt 0, HInt 1, HInt 0, HInt 1]],
            HRef 3)"
  by code_simp

theorem copies_leave_config_witness:
  "take 4 (shared_heap @
        [ODict [(''backbone'', HRef 5), (''head'', HRef 5)], ODict [(''lr'', HInt 2)]])
     = shared_heap
   \<and> value_of 5
        (shared_heap @
           [ODict [(''backbone'', HRef 5), (''head'', HRef 5)], ODict [(''lr'', HInt 2)]])
        (HRef 0)
     = Some (PDict [(''backbone'', PDict [(''lr'', PInt 1)]), (''head'', PDict [(''lr'', PInt 1)])])
   \<and> \<not> reaches
        (shared_heap @
           [ODict [(''backbone'', HRef 5), (''head'', HRef 5)], ODict [(''lr'', HInt 2)]])
        4 1
   \<and> take 3 (graph_heap @
              [ODict [(''graph'', HRef 6), (''edges'', HRef 1), (''channels'', HRef 7)],
               OList [HInt 0, HInt 1],
               OList [HStr ''num_bodyparts x 2'', HStr ''paf_graph x 2''],
               OList [HInt 0, HInt 1],
               OList [HInt 34, HRef 8],
               OList [HInt 0, HInt 1, HInt 0, HInt 1]])
     = graph_heap
   \<and> \<not> reaches
        (graph_heap @
              [ODict [(''graph'', HRef 6), (''edges'', HRef 1), (''channels'', HRef 7)],
               OList [HInt 0, HInt 1],
               OList [HStr ''num_bodyparts x 2'', HStr ''paf_graph x 2''],
               OList [HInt 0, HInt 1],
               OList [HInt 34, HRef 8],
               OList [HInt 0, HInt 1, HInt 0, HInt 1]])
        3 2"
proof -
  let ?h1 = "shared_heap @
        [ODict [(''backbone'', HRef 5), (''head'', HRef 5)], ODict [(''lr'', HInt 2)]]"
  let ?h2 = "graph_heap @
              [ODict [(''graph'', HRef 6), (''edges'', HRef 1), (''channels'', HRef 7)],
               OList [HInt 0, HInt 1],
               OList [HStr ''num_bodyparts x 2'', HStr ''paf_graph x 2''],
               OList [HInt 0, HInt 1],
               OList [HInt 34, HRef 8],
               OList [HInt 0, HInt 1, HInt 0, HInt 1]]"
  have len: "length shared_heap = 4" "length graph_heap = 3"
    by (simp_all add: shared_heap_def graph_heap_def)
  have uv: "uv_refs graph_values = {1}"
    by (auto simp: uv_refs_def graph_values_def)
  have wf: "heap_wf graph_heap" "heap_wf shared_heap"
    by (auto simp: heap_wf_def graph_heap_def shared_heap_def refs_of_def nth_Cons' less_Suc_eq
        eval_nat_numeral)
  have cfg: "\<forall>a. (HRef 0 :: (string, unit) hval) = HRef a \<longrightarrow> a < length shared_heap"
    "\<forall>a. (HRef 0 :: (string, unit) hval) = HRef a \<longrightarrow> a < length graph_heap"
    using len by simp_all
  have v0: "value_of 5 shared_heap (HRef 0)
     = Some (PDict [(''backbone'', PDict [(''lr'', PInt 1)]), (''head'', PDict [(''lr'', PInt 1)])])"
    by code_simp
  have leaf: "refs_of (graph_heap ! 1) = {}"
    by (simp add: graph_heap_def refs_of_def)
  have r: "reaches graph_heap 1 b \<Longrightarrow> b = 1" for b
    using reaches_leaf [OF _ leaf] by blast
  have pre: "replace_default_values_st 5 example_float_ops graph_values graph_heap (HRef 0)
               = Inr (?h2, HRef 3)
             \<and> (\<forall>u\<in>uv_refs graph_values. u < length graph_heap)"
    using replace_default_values_st_graph uv len by simp
  from copies_leave_config
         [OF wf(2) cfg(1), where n = 5 and updates = "HRef 2" and h' = ?h1 and r = "HRef 4"
            and m = 5]
    update_config_st_shared
  have 1: "take (length shared_heap) ?h1 = shared_heap"
    and v1: "value_of 5 ?h1 (HRef 0) = value_of 5 shared_heap (HRef 0)"
    and 2: "\<forall>b. reaches ?h1 4 b \<longrightarrow> length shared_heap \<le> b \<and> b < length ?h1"
    by auto
  from copies_leave_config
         [OF wf(1) cfg(2), where n = 5 and fl = example_float_ops
            and uv = graph_values and h'' = ?h2 and r' = "HRef 3"]
    pre
  have 3: "take (length graph_heap) ?h2 = graph_heap"
    and 4: "\<forall>b. reaches ?h2 3 b \<longrightarrow>
              (length graph_heap \<le> b \<and> b < length ?h2)
              \<or> (\<exists>u\<in>uv_refs graph_values. reaches graph_heap u b)"
    by auto
  from 2 have "\<not> reaches ?h1 4 1" using len by auto
  moreover from 4 have "\<not> reaches ?h2 3 2" using len uv r by fastforce
  ultimately show ?thesis using 1 v1 v0 3 len by simp
qed

text \<open>
  As stated, C5 fails where a list of the config is also supplied as a placeholder value:
  the bare placeholder is replaced by the list itself, which the result then shares with
  the input.
\<close>

theorem copies_leave_config_counterexample:
  "replace_default_values_st 5 example_float_ops graph_values graph_heap (HRef 0)
     = Inr (graph_heap @
              [ODict [(''graph'', HRef 6), (''edges'', HRef 1), (''channels'', HRef 7)],
               OList [HInt 0, HInt 1],
               OList [HStr ''num_bodyparts x 2'', HStr ''paf_graph x 2''],
               OList [HInt 0, HInt 1],
               OList [HInt 34, HRef 8],
               OList [HInt 0, HInt 1, HInt 0, HInt 1]],
            HRef 3)
   \<and> reaches graph_heap 0 1
   \<and> reaches
        (graph_heap @
              [ODict [(''graph'', HRef 6), (''edges'', HRef 1), (''channels'', HRef 7)],
               OList [HInt 0, HInt 1],
               OList [HStr ''num_bodyparts x 2'', HStr ''paf_graph x 2''],
               OList [HInt 0, HInt 1],
               OList [HInt 34, HRef 8],
               OList [HInt 0, HInt 1, HInt 0, HInt 1]])
        3 1"
proof (intro conjI)
  show "reaches graph_heap 0 1"
    by (rule reaches.step [OF reaches.here]) (simp add: graph_heap_def refs_of_def)
  show "reaches
        (graph_heap @
              [ODict [(''graph'', HRef 6), (''edges'', HRef 1), (''channels'', HRef 7)],
               OList [HInt 0, HInt 1],
               OList [HStr ''num_bodyparts x 2'', HStr ''paf_graph x 2''],
               OList [HInt 0, HInt 1],
               OList [HInt 34, HRef 8],
               OList [HInt 0, HInt 1, HInt 0, HInt 1]])
        3 1"
    by (rule reaches.step [OF reaches.here]) (simp add: graph_heap_def refs_of_def)
qed (rule replace_default_values_st_graph)

text \<open>
  As stated, C4 fails where two keys of the config hold the same dict: the copy keeps them
  one object, the merge for the first key changes it in place, and the second key, which
  the updates do not have, no longer has its original value.
\<close>

theorem update_config_shared_counterexample:
  "value_of 5 shared_heap (HRef 0)
     = Some (PDict [(''backbone'', PDict [(''lr'', PInt 1)]), (''head'', PDict [(''lr'', PInt 1)])])
   \<and> value_of 5 shared_heap (HRef 2) = Some (PDict [(''backbone'', PDict [(''lr'', PInt 2)])])
   \<and> update_config_st 5 shared_heap (HRef 0) (HRef 2) True
     = Inr (shared_heap @
              [ODict [(''backbone'', HRef 5), (''head'', HRef 5)], ODict [(''lr'', HInt 2)]],
            HRef 4)
   \<and> value_of 5
        (shared_heap @
           [ODict [(''backbone'', HRef 5), (''head'', HRef 5)], ODict [(''lr'', HInt 2)]])
        (HRef 4)
     = Some (PDict [(''backbone'', PDict [(''lr'', PInt 2)]), (''head'', PDict [(''lr'', PInt 2)])])"
  by code_simp

end
